theory Spec2Isabelle
  imports Main "HOL-Library.Product_Lexorder" "HOL-Library.Multiset"
begin

section \<open>Tokens (dht/token.cc)\<close>

text \<open>
  A token has a kind and, for kind \<open>key\<close>, 64-bit signed data.  The only tokens of the
  other two kinds that the code builds are \<open>min_token\<close> and \<open>max_token\<close>, and
  \<open>tri_compare\<close> never reads their data, so the data is kept for \<open>key\<close> only.  No
  arithmetic is done on token data here, only comparison, so it is an \<open>int\<close>.
\<close>

datatype token = before_all_keys | key int | after_all_keys

definition minimum_token :: token where
  "minimum_token = before_all_keys"

definition maximum_token :: token where
  "maximum_token = after_all_keys"

fun token_kind :: "token \<Rightarrow> nat" where
  "token_kind before_all_keys = 0"
| "token_kind (key _) = 1"
| "token_kind after_all_keys = 2"

fun long_token :: "token \<Rightarrow> int" where
  "long_token (key d) = d"
| "long_token _ = - (2 ^ 63)"

definition tri_compare :: "token \<Rightarrow> token \<Rightarrow> int" where
  "tri_compare t1 t2 =
     (if token_kind t1 < token_kind t2 then - 1
      else if token_kind t1 > token_kind t2 then 1
      else if token_kind t1 = 1 then
        (let l1 = long_token t1; l2 = long_token t2
         in if l1 = l2 then 0 else if l1 < l2 then - 1 else 1)
      else 0)"

text \<open>\<open>operator<\<close> and \<open>operator<=\<close> on tokens are \<open>tri_compare\<close> against zero.\<close>

instantiation token :: linorder
begin

definition less_eq_token :: "token \<Rightarrow> token \<Rightarrow> bool" where
  "less_eq_token t1 t2 \<longleftrightarrow> tri_compare t1 t2 \<le> 0"

definition less_token :: "token \<Rightarrow> token \<Rightarrow> bool" where
  "less_token t1 t2 \<longleftrightarrow> tri_compare t1 t2 < 0"

instance
proof
  fix x y z :: token
  show "(x < y) = (x \<le> y \<and> \<not> y \<le> x)"
    by (cases x; cases y) (simp_all add: less_token_def less_eq_token_def tri_compare_def)
  show "x \<le> x"
    by (cases x) (simp_all add: less_eq_token_def tri_compare_def)
  show "x \<le> y \<Longrightarrow> y \<le> z \<Longrightarrow> x \<le> z"
    by (cases x; cases y; cases z)
       (simp_all add: less_eq_token_def tri_compare_def split: if_splits)
  show "x \<le> y \<Longrightarrow> y \<le> x \<Longrightarrow> x = y"
    by (cases x; cases y) (simp_all add: less_eq_token_def tri_compare_def split: if_splits)
  show "x \<le> y \<or> y \<le> x"
    by (cases x; cases y) (simp_all add: less_eq_token_def tri_compare_def)
qed

end

section \<open>Ranges and intervals\<close>

text \<open>
  \<open>range_bound<T>\<close> and \<open>nonwrapping_range<T>\<close>: a range has an optional start and an
  optional end bound, each a value and an inclusive flag.
\<close>

datatype 'a range_bound = Bound (bound_value: 'a) (is_inclusive: bool)

datatype 'a range = Range (range_start: "'a range_bound option") (range_end: "'a range_bound option")

text \<open>
  A bound of a \<open>boost::icl\<close> continuous interval is kept as a cut of the domain:
  \<open>(x, False)\<close> is the position just before \<open>x\<close> and \<open>(x, True)\<close> the position just
  after it, ordered lexicographically.  An interval is the pair of its lower and upper
  cut; the four bound types of the library are the four combinations of flags.
\<close>

type_synonym 'a cut = "'a \<times> bool"

type_synonym 'a interval = "'a cut \<times> 'a cut"

definition interval_open :: "'a \<Rightarrow> 'a \<Rightarrow> 'a interval" where
  "interval_open a b = ((a, True), (b, False))"

definition interval_left_open :: "'a \<Rightarrow> 'a \<Rightarrow> 'a interval" where
  "interval_left_open a b = ((a, True), (b, True))"

definition interval_right_open :: "'a \<Rightarrow> 'a \<Rightarrow> 'a interval" where
  "interval_right_open a b = ((a, False), (b, False))"

definition interval_closed :: "'a \<Rightarrow> 'a \<Rightarrow> 'a interval" where
  "interval_closed a b = ((a, False), (b, True))"

text \<open>\<open>icl::is_empty\<close>: upper below lower, or equal and not closed on both sides.\<close>

definition is_empty_interval :: "'c::linorder \<times> 'c \<Rightarrow> bool" where
  "is_empty_interval i \<longleftrightarrow> \<not> fst i < snd i"

text \<open>\<open>icl::exclusive_less\<close>, the ordering of the underlying \<open>std::map\<close>.\<close>

definition exclusive_less :: "'c::linorder \<times> 'c \<Rightarrow> 'c \<times> 'c \<Rightarrow> bool" where
  "exclusive_less i j \<longleftrightarrow> is_empty_interval i \<or> is_empty_interval j \<or> snd i \<le> fst j"

text \<open>Two intervals are equivalent keys of the map when neither is exclusively less.\<close>

definition overlaps :: "'c::linorder \<times> 'c \<Rightarrow> 'c \<times> 'c \<Rightarrow> bool" where
  "overlaps i j \<longleftrightarrow> \<not> exclusive_less i j \<and> \<not> exclusive_less j i"

definition interval_contains :: "'a::linorder interval \<Rightarrow> 'a \<Rightarrow> bool" where
  "interval_contains i x \<longleftrightarrow> fst i \<le> (x, False) \<and> (x, True) \<le> snd i"

text \<open>
  Modelled from the spec: \<open>token_metadata::range_to_interval\<close> and
  \<open>token_metadata::interval_to_range\<close> (locator/token_metadata.cc) and
  \<open>range::contains\<close> (range.hh) are not among the sources.  A missing start is the open
  bound \<open>minimum_token\<close>, a missing end the open bound \<open>maximum_token\<close>; an interval becomes
  the range with both bounds present; a range contains another when its bounds enclose
  the other's bounds, and contains a point that lies after its start and before its end.
\<close>

definition range_to_interval :: "token range \<Rightarrow> token interval" where
  "range_to_interval r =
     (let (start, start_inclusive) =
            (case range_start r of None \<Rightarrow> (minimum_token, False)
             | Some b \<Rightarrow> (bound_value b, is_inclusive b));
          (end, end_inclusive) =
            (case range_end r of None \<Rightarrow> (maximum_token, False)
             | Some b \<Rightarrow> (bound_value b, is_inclusive b))
      in if start_inclusive = False \<and> end_inclusive = False then interval_open start end
         else if start_inclusive = False \<and> end_inclusive = True then interval_left_open start end
         else if start_inclusive = True \<and> end_inclusive = False then interval_right_open start end
         else interval_closed start end)"

definition interval_to_range :: "'a interval \<Rightarrow> 'a range" where
  "interval_to_range i =
     Range (Some (Bound (fst (fst i)) (\<not> snd (fst i))))
           (Some (Bound (fst (snd i)) (snd (snd i))))"

definition start_cut :: "'a range_bound \<Rightarrow> 'a cut" where
  "start_cut b = (bound_value b, \<not> is_inclusive b)"

definition end_cut :: "'a range_bound \<Rightarrow> 'a cut" where
  "end_cut b = (bound_value b, is_inclusive b)"

definition range_contains :: "'a::linorder range \<Rightarrow> 'a range \<Rightarrow> bool" where
  "range_contains r other \<longleftrightarrow>
     (case range_start r of None \<Rightarrow> True
      | Some s \<Rightarrow> (case range_start other of None \<Rightarrow> False
                   | Some os \<Rightarrow> start_cut s \<le> start_cut os)) \<and>
     (case range_end r of None \<Rightarrow> True
      | Some e \<Rightarrow> (case range_end other of None \<Rightarrow> False
                   | Some oe \<Rightarrow> end_cut oe \<le> end_cut e))"

definition range_contains_point :: "'a::linorder range \<Rightarrow> 'a \<Rightarrow> bool" where
  "range_contains_point r x \<longleftrightarrow>
     (case range_start r of None \<Rightarrow> True
      | Some s \<Rightarrow> if is_inclusive s then bound_value s \<le> x else bound_value s < x) \<and>
     (case range_end r of None \<Rightarrow> True
      | Some e \<Rightarrow> if is_inclusive e then x \<le> bound_value e else x < bound_value e)"

section \<open>The interval map (tombstone_gc.cc, class repair_history_map)\<close>

text \<open>
  \<open>gc_clock::time_point\<close> counts seconds in a signed 64-bit integer.  Time points and
  durations are modelled as \<open>int\<close>; for a non-negative duration and time points inside the
  64-bit range no operation below leaves that range, so no wrap-around is written out.
\<close>

type_synonym time_point = int

definition time_point_min :: time_point where
  "time_point_min = - (2 ^ 63)"

definition time_point_max :: time_point where
  "time_point_max = 2 ^ 63 - 1"

text \<open>
  \<open>boost::icl::interval_map<dht::token, gc_clock::time_point, partial_absorber, std::less,
  inplace_max>\<close> (a library type) is modelled by what the library keeps: the list of its
  segments in ascending order, pairwise disjoint, none empty, touching segments with equal
  values joined, and no segment holding the identity element of the combiner.  The identity
  element of \<open>inplace_max\<close> is the default-constructed value, the epoch.
\<close>

type_synonym 'c segments = "(('c \<times> 'c) \<times> time_point) list"

type_synonym 'a interval_map = "'a cut segments"

definition identity_element :: time_point where
  "identity_element = 0"

fun wf :: "'c::linorder segments \<Rightarrow> bool" where
  "wf [] = True"
| "wf [((l, h), w)] = (l < h \<and> w \<noteq> identity_element)"
| "wf (((l, h), w) # ((l', h'), w') # rest) =
     (l < h \<and> w \<noteq> identity_element \<and> h \<le> l' \<and> (h = l' \<longrightarrow> w \<noteq> w') \<and>
      wf (((l', h'), w') # rest))"

text \<open>Putting a segment in front of a list, joined with the first one when they touch
  and hold the same value.\<close>

fun join_cons :: "('c \<times> 'c) \<times> time_point \<Rightarrow> 'c segments \<Rightarrow> 'c segments" where
  "join_cons s [] = [s]"
| "join_cons s (s' # rest) =
     (if snd (fst s) = fst (fst s') \<and> snd s = snd s'
      then ((fst (fst s), snd (fst s')), snd s) # rest
      else s # s' # rest)"

text \<open>
  Addition of a non-empty segment \<open>[lo, hi)\<close> with value \<open>v\<close>: the parts of it that meet no
  stored segment are inserted, on the common parts the stored value is combined by
  \<open>inplace_max\<close>, and the parts of stored segments outside it are kept.
\<close>

fun add_segment :: "'c::linorder \<Rightarrow> 'c \<Rightarrow> time_point \<Rightarrow> 'c segments \<Rightarrow> 'c segments" where
  "add_segment lo hi v [] = [((lo, hi), v)]"
| "add_segment lo hi v (((l, h), w) # rest) =
     (if hi \<le> l then join_cons ((lo, hi), v) (((l, h), w) # rest)
      else if h \<le> lo then join_cons ((l, h), w) (add_segment lo hi v rest)
      else
        let common = ((max lo l, min hi h), max w v);
            tail = (if hi < h then ((hi, h), w) # rest
                    else if h < hi then add_segment h hi v rest
                    else rest);
            joined = join_cons common tail
        in if lo < l then join_cons ((lo, l), v) joined
           else if l < lo then join_cons ((l, lo), w) joined
           else joined)"

text \<open>\<open>operator+=\<close>: an empty interval and an identity value are absorbed.\<close>

definition add :: "'c::linorder segments \<Rightarrow> ('c \<times> 'c) \<times> time_point \<Rightarrow> 'c segments" where
  "add m addend =
     (let inter_val = fst addend; co_val = snd addend
      in if is_empty_interval inter_val then m
         else if co_val = identity_element then m
         else add_segment (fst inter_val) (snd inter_val) co_val m)"

text \<open>\<open>equal_range\<close> of the map: the stored segments that are equivalent to the key interval.\<close>

definition map_equal_range :: "'c::linorder segments \<Rightarrow> 'c \<times> 'c \<Rightarrow> 'c segments" where
  "map_equal_range m i = filter (\<lambda>x. overlaps (fst x) i) m"

text \<open>\<open>find\<close> of a domain value: the segment equivalent to the closed singleton interval,
  \<open>None\<close> for \<open>end()\<close>.\<close>

definition interval_map_find ::
    "'a::linorder interval_map \<Rightarrow> 'a \<Rightarrow> ('a interval \<times> time_point) option" where
  "interval_map_find m x = List.find (\<lambda>s. overlaps (fst s) (interval_closed x x)) m"

text \<open>The value stored at a cut, used to state what the map holds.\<close>

fun lookup :: "'c::linorder segments \<Rightarrow> 'c \<Rightarrow> time_point option" where
  "lookup [] c = None"
| "lookup (((l, h), w) # rest) c = (if l \<le> c \<and> c < h then Some w else lookup rest c)"

text \<open>Two auxiliary predicates on a segment list: every segment starts at or after a cut,
  and a segment starting exactly at the cut does not hold the given value.\<close>

fun lb :: "'c::linorder \<Rightarrow> 'c segments \<Rightarrow> bool" where
  "lb c [] = True"
| "lb c (((l, h), w) # rest) = (c \<le> l)"

fun nj :: "'c \<Rightarrow> time_point \<Rightarrow> 'c segments \<Rightarrow> bool" where
  "nj c v [] = True"
| "nj c v (((l, h), w) # rest) = (c = l \<longrightarrow> v \<noteq> w)"

section \<open>Tombstone garbage collection (tombstone_gc.cc)\<close>

type_synonym uuid = nat

datatype tombstone_gc_mode = timeout | disabled | immediate | repair

record tombstone_gc_options =
  mode :: tombstone_gc_mode
  propagation_delay_in_seconds :: int

record schema =
  schema_id :: uuid
  gc_grace_seconds :: int
  tombstone_gc_options :: tombstone_gc_options

datatype decorated_key = Decorated_key (dk_token: token) (dk_key: string)

record get_gc_before_for_range_result =
  min_gc_before :: time_point
  max_gc_before :: time_point
  knows_entire_range :: bool

text \<open>The thread-local \<open>repair_history_maps\<close>, passed as state.\<close>

type_synonym repair_history_maps = "uuid \<rightharpoonup> token interval_map"

text \<open>
  Modelled from the spec: \<open>saturating_subtract\<close> is declared outside the sources.  It
  returns the time point that is earlier by the duration, or the minimum time point when
  that cannot be represented.
\<close>

definition saturating_subtract :: "time_point \<Rightarrow> int \<Rightarrow> time_point" where
  "saturating_subtract t d = max t (time_point_min + d) - d"

definition get_or_create_repair_history_map_for_table ::
    "repair_history_maps \<Rightarrow> uuid \<Rightarrow> repair_history_maps \<times> token interval_map" where
  "get_or_create_repair_history_map_for_table maps i =
     (case maps i of Some m \<Rightarrow> (maps, m) | None \<Rightarrow> (maps(i \<mapsto> []), []))"

definition get_repair_history_map_for_table ::
    "repair_history_maps \<Rightarrow> uuid \<Rightarrow> token interval_map option" where
  "get_repair_history_map_for_table maps i = maps i"

definition drop_repair_history_map_for_table :: "repair_history_maps \<Rightarrow> uuid \<Rightarrow> repair_history_maps" where
  "drop_repair_history_map_for_table maps i = maps(i := None)"

text \<open>The loop over \<open>equal_range\<close>, on the state \<open>(min, max, hits, contains_all)\<close>.\<close>

fun scan_entries :: "token interval_map \<Rightarrow> token range \<Rightarrow>
    time_point \<times> time_point \<times> nat \<times> bool \<Rightarrow> time_point \<times> time_point \<times> nat \<times> bool" where
  "scan_entries [] rng st = st"
| "scan_entries (x # xs) rng (mn, mx, hits, contains_all) =
     (let r = interval_to_range (fst x);
          mn' = min (snd x) mn;
          mx' = max (snd x) mx;
          hits' = hits + 1;
          contains_all' = (if hits' = 1 \<and> range_contains r rng then True else contains_all)
      in scan_entries xs rng (mn', mx', hits', contains_all'))"

definition get_gc_before_for_range ::
    "repair_history_maps \<Rightarrow> schema \<Rightarrow> token range \<Rightarrow> time_point \<Rightarrow> get_gc_before_for_range_result" where
  "get_gc_before_for_range maps s rng query_time =
     (let options = tombstone_gc_options s
      in case mode options of
           timeout \<Rightarrow>
             (let gc_before = saturating_subtract query_time (gc_grace_seconds s)
              in \<lparr>min_gc_before = gc_before, max_gc_before = gc_before, knows_entire_range = True\<rparr>)
         | disabled \<Rightarrow>
             \<lparr>min_gc_before = time_point_min, max_gc_before = time_point_min,
              knows_entire_range = True\<rparr>
         | immediate \<Rightarrow>
             \<lparr>min_gc_before = time_point_max, max_gc_before = time_point_max,
              knows_entire_range = True\<rparr>
         | repair \<Rightarrow>
             (let propagation_delay = propagation_delay_in_seconds options
              in case get_repair_history_map_for_table maps (schema_id s) of
                   None \<Rightarrow>
                     \<lparr>min_gc_before = time_point_min, max_gc_before = time_point_min,
                      knows_entire_range = False\<rparr>
                 | Some m \<Rightarrow>
                     (let interval = range_to_interval rng;
                          (mn, mx, hits, contains_all) =
                            scan_entries (map_equal_range m interval) rng
                              (time_point_max, time_point_min, 0, False);
                          (knows, min_repair_timestamp, max_repair_timestamp) =
                            (if hits = 0 then (False, time_point_min, time_point_min)
                             else (hits = 1 \<and> contains_all, mn, mx))
                      in \<lparr>min_gc_before = saturating_subtract min_repair_timestamp propagation_delay,
                          max_gc_before = saturating_subtract max_repair_timestamp propagation_delay,
                          knows_entire_range = knows\<rparr>)))"

definition get_gc_before_for_key ::
    "repair_history_maps \<Rightarrow> schema \<Rightarrow> decorated_key \<Rightarrow> time_point \<Rightarrow> time_point" where
  "get_gc_before_for_key maps s dk query_time =
     (let options = tombstone_gc_options s
      in case mode options of
           timeout \<Rightarrow> saturating_subtract query_time (gc_grace_seconds s)
         | disabled \<Rightarrow> time_point_min
         | immediate \<Rightarrow> time_point_max
         | repair \<Rightarrow>
             (let propagation_delay = propagation_delay_in_seconds options
              in case get_repair_history_map_for_table maps (schema_id s) of
                   None \<Rightarrow> time_point_min
                 | Some m \<Rightarrow>
                     (case interval_map_find m (dk_token dk) of
                        None \<Rightarrow> time_point_min
                      | Some it \<Rightarrow> saturating_subtract (snd it) propagation_delay)))"

definition update_repair_time ::
    "repair_history_maps \<Rightarrow> schema \<Rightarrow> token range \<Rightarrow> time_point \<Rightarrow> repair_history_maps" where
  "update_repair_time maps s rng repair_time =
     (let (maps', m) = get_or_create_repair_history_map_for_table maps (schema_id s)
      in maps'(schema_id s \<mapsto> add m (range_to_interval rng, repair_time)))"

text \<open>What the claims speak of: the entries of a table's map that a range or a key
  meets, and the repair time recorded for a token.\<close>

definition range_entries :: "repair_history_maps \<Rightarrow> schema \<Rightarrow> token range \<Rightarrow> token interval_map" where
  "range_entries maps s rng =
     (case get_repair_history_map_for_table maps (schema_id s) of
        None \<Rightarrow> [] | Some m \<Rightarrow> map_equal_range m (range_to_interval rng))"

definition recorded_repair_time :: "repair_history_maps \<Rightarrow> schema \<Rightarrow> token \<Rightarrow> time_point option" where
  "recorded_repair_time maps s x =
     (case get_repair_history_map_for_table maps (schema_id s) of
        None \<Rightarrow> None | Some m \<Rightarrow> map_option snd (interval_map_find m x))"

definition merge_value :: "time_point option \<Rightarrow> time_point \<Rightarrow> time_point" where
  "merge_value old v = (case old of None \<Rightarrow> v | Some w \<Rightarrow> max w v)"

definition maps_wf :: "repair_history_maps \<Rightarrow> schema \<Rightarrow> bool" where
  "maps_wf maps s = (case maps (schema_id s) of None \<Rightarrow> True | Some m \<Rightarrow> wf m)"

section \<open>Keyspaces, the database and validation (tombstone_gc.cc, replica/database.cc)\<close>

datatype replication_strategy_type = simple | local | network_topology | everywhere_topology

record keyspace =
  replication_strategy_type :: replication_strategy_type
  replication_factor :: nat

record column_family =
  cf_ks_name :: string

record database =
  keyspaces :: "string \<rightharpoonup> keyspace"
  cluster_supports_tombstone_gc_options :: bool
  column_families :: "(uuid \<times> column_family) list"

datatype exception = configuration_exception string | no_such_keyspace string

definition find_keyspace :: "database \<Rightarrow> string \<Rightarrow> exception + keyspace" where
  "find_keyspace db name =
     (case keyspaces db name of None \<Rightarrow> Inl (no_such_keyspace name) | Some ks \<Rightarrow> Inr ks)"

definition needs_repair_before_gc :: "database \<Rightarrow> string \<Rightarrow> exception + bool" where
  "needs_repair_before_gc db ks_name =
     (case find_keyspace db ks_name of
        Inl e \<Rightarrow> Inl e
      | Inr ks \<Rightarrow>
          Inr (replication_strategy_type ks \<noteq> local \<and> replication_factor ks \<noteq> 1))"

definition validate_tombstone_gc_options ::
    "tombstone_gc_options option \<Rightarrow> database \<Rightarrow> string \<Rightarrow> exception + unit" where
  "validate_tombstone_gc_options options db ks_name =
     (case options of
        None \<Rightarrow> Inr ()
      | Some opts \<Rightarrow>
          if \<not> cluster_supports_tombstone_gc_options db
          then Inl (configuration_exception ''tombstone_gc option not supported by the cluster'')
          else if mode opts = repair
          then (case needs_repair_before_gc db ks_name of
                  Inl e \<Rightarrow> Inl e
                | Inr needs_repair \<Rightarrow>
                    if \<not> needs_repair
                    then Inl (configuration_exception
                      ''tombstone_gc option with mode = repair not supported for table with RF one or local replication strategy'')
                    else Inr ())
          else Inr ())"

definition is_configuration_exception :: "exception + unit \<Rightarrow> bool" where
  "is_configuration_exception r = (case r of Inl (configuration_exception _) \<Rightarrow> True | _ \<Rightarrow> False)"

section \<open>Draining (replica/database.cc)\<close>

definition system_keyspaces :: "string set" where
  "system_keyspaces = {''system'', ''system_schema''}"

definition is_system_keyspace :: "string \<Rightarrow> bool" where
  "is_system_keyspace name \<longleftrightarrow> name \<in> system_keyspaces"

datatype drain_event =
    compaction_manager_drain
  | stop_barrier_arrive_and_wait
  | flush_begin uuid
  | flush_end uuid
  | flush_failed uuid
  | commitlog_shutdown

definition get_column_families :: "database \<Rightarrow> (uuid \<times> column_family) list" where
  "get_column_families db = column_families db"

definition non_system_cfs :: "database \<Rightarrow> (uuid \<times> column_family) list" where
  "non_system_cfs db =
     filter (\<lambda>uuid_and_cf. \<not> is_system_keyspace (cf_ks_name (snd uuid_and_cf))) (get_column_families db)"

definition system_cfs :: "database \<Rightarrow> (uuid \<times> column_family) list" where
  "system_cfs db =
     filter (\<lambda>uuid_and_cf. is_system_keyspace (cf_ks_name (snd uuid_and_cf))) (get_column_families db)"

definition flush :: "(uuid \<Rightarrow> bool) \<Rightarrow> uuid \<Rightarrow> drain_event list" where
  "flush flush_ok u = [flush_begin u, if flush_ok u then flush_end u else flush_failed u]"

fun parallel_for_each :: "(uuid \<Rightarrow> bool) \<Rightarrow> uuid list \<Rightarrow> drain_event list set" where
  "parallel_for_each flush_ok [] = {[]}"
| "parallel_for_each flush_ok (u # us) =
     (\<Union>t \<in> parallel_for_each flush_ok us. shuffles (flush flush_ok u) t)"

definition flush_non_system_column_families :: "(uuid \<Rightarrow> bool) \<Rightarrow> database \<Rightarrow> drain_event list set" where
  "flush_non_system_column_families flush_ok db =
     parallel_for_each flush_ok (map fst (non_system_cfs db))"

definition flush_system_column_families :: "(uuid \<Rightarrow> bool) \<Rightarrow> database \<Rightarrow> drain_event list set" where
  "flush_system_column_families flush_ok db =
     parallel_for_each flush_ok (map fst (system_cfs db))"

definition drain :: "(uuid \<Rightarrow> bool) \<Rightarrow> database \<Rightarrow> drain_event list set" where
  "drain flush_ok db =
     {[compaction_manager_drain, stop_barrier_arrive_and_wait] @ p1 @
      (if \<forall>u \<in> set (map fst (non_system_cfs db)). flush_ok u
       then [stop_barrier_arrive_and_wait] @ p2 @
            (if \<forall>u \<in> set (map fst (system_cfs db)). flush_ok u
             then [stop_barrier_arrive_and_wait, commitlog_shutdown] else [])
       else []) | p1 p2.
      p1 \<in> flush_non_system_column_families flush_ok db \<and>
      p2 \<in> flush_system_column_families flush_ok db}"

fun flushed_table :: "drain_event \<Rightarrow> uuid option" where
  "flushed_table (flush_begin u) = Some u"
| "flushed_table (flush_end u) = Some u"
| "flushed_table (flush_failed u) = Some u"
| "flushed_table _ = None"

definition user_flush_event :: "database \<Rightarrow> drain_event \<Rightarrow> bool" where
  "user_flush_event db e =
     (case flushed_table e of None \<Rightarrow> False | Some u \<Rightarrow> u \<in> fst ` set (non_system_cfs db))"

definition system_flush_event :: "database \<Rightarrow> drain_event \<Rightarrow> bool" where
  "system_flush_event db e =
     (case flushed_table e of None \<Rightarrow> False | Some u \<Rightarrow> u \<in> fst ` set (system_cfs db))"

section \<open>Sstables and the size-tiered strategy\<close>

text \<open>
  Modelled from the spec: the sstable handle (sstables/sstables.hh) is not among the
  sources.  Of its attributes the strategies read the generation, the level, the first
  and last key, the minimum and maximum timestamp and the data size.
\<close>

record sstable =
  generation :: nat
  sstable_level :: nat
  first_key :: token
  last_key :: token
  min_timestamp :: int
  max_timestamp :: int
  data_size :: nat

text \<open>
  Modelled from the spec: the size-tiered strategy
  (compaction/size_tiered_compaction_strategy.cc) is not among the sources.  The sstables,
  smallest first, are grouped into buckets of similar size; the similarity test of a
  bucket and an sstable is a parameter, as the spec leaves it configurable.  A bucket is a
  candidate once it has \<open>min_threshold\<close> members; a job is capped at \<open>max_threshold\<close>
  members, the first ones of the bucket; of the candidates the one with the smallest
  average size is taken.
\<close>

type_synonym bucket = "sstable list"

fun insert_into_buckets :: "(bucket \<Rightarrow> sstable \<Rightarrow> bool) \<Rightarrow> sstable \<Rightarrow> bucket list \<Rightarrow> bucket list" where
  "insert_into_buckets similar s [] = [[s]]"
| "insert_into_buckets similar s (b # bs) =
     (if similar b s then (b @ [s]) # bs else b # insert_into_buckets similar s bs)"

definition get_buckets :: "(bucket \<Rightarrow> sstable \<Rightarrow> bool) \<Rightarrow> sstable list \<Rightarrow> bucket list" where
  "get_buckets similar sstables =
     foldl (\<lambda>bs s. insert_into_buckets similar s bs) [] (sort_key data_size sstables)"

definition total_size :: "bucket \<Rightarrow> nat" where
  "total_size b = sum_list (map data_size b)"

text \<open>Comparison of average sizes by cross-multiplication.\<close>

definition avg_size_less :: "bucket \<Rightarrow> bucket \<Rightarrow> bool" where
  "avg_size_less b c \<longleftrightarrow> total_size b * length c < total_size c * length b"

definition is_bucket_interesting :: "bucket \<Rightarrow> nat \<Rightarrow> bool" where
  "is_bucket_interesting b min_threshold \<longleftrightarrow> min_threshold \<le> length b"

fun smallest_bucket :: "bucket \<Rightarrow> bucket list \<Rightarrow> bucket" where
  "smallest_bucket b [] = b"
| "smallest_bucket b (c # cs) = smallest_bucket (if avg_size_less c b then c else b) cs"

definition most_interesting_bucket :: "bucket list \<Rightarrow> nat \<Rightarrow> nat \<Rightarrow> bucket" where
  "most_interesting_bucket buckets min_threshold max_threshold =
     (case filter (\<lambda>b. is_bucket_interesting b min_threshold) (map (take max_threshold) buckets) of
        [] \<Rightarrow> []
      | b # bs \<Rightarrow> smallest_bucket b bs)"

definition size_tiered_get_sstables_for_compaction ::
    "(bucket \<Rightarrow> sstable \<Rightarrow> bool) \<Rightarrow> nat \<Rightarrow> nat \<Rightarrow> sstable list \<Rightarrow> sstable list" where
  "size_tiered_get_sstables_for_compaction similar min_threshold max_threshold candidates =
     most_interesting_bucket (get_buckets similar candidates) min_threshold max_threshold"

section \<open>The time-window strategy\<close>

text \<open>
  Modelled from the spec: the time-window strategy
  (compaction/time_window_compaction_strategy.cc) is not among the sources.  Sstables are
  put into the window \<open>floor (timestamp / window_size) * window_size\<close> of their maximum
  timestamp.  The strategy keeps the set of the older windows that have held exactly one
  sstable at a selection; every selection first adds to it each older window that holds
  exactly one sstable, and a window in the set is in size-tiered mode from then on.  The
  current window and the windows in size-tiered mode are compacted by the size-tiered rule;
  any other older window is merged as a whole when it holds at least two sstables, capped
  at \<open>max_threshold\<close> with the oldest discarded.  The job of the newest window that has one
  is returned.
\<close>

definition get_window_lower_bound :: "int \<Rightarrow> int \<Rightarrow> int" where
  "get_window_lower_bound window_size timestamp = (timestamp div window_size) * window_size"

fun add_to_window :: "int \<Rightarrow> sstable \<Rightarrow> (int \<times> bucket) list \<Rightarrow> (int \<times> bucket) list" where
  "add_to_window w s [] = [(w, [s])]"
| "add_to_window w s ((w', b) # rest) =
     (if w = w' then (w', b @ [s]) # rest else (w', b) # add_to_window w s rest)"

definition get_windows :: "int \<Rightarrow> sstable list \<Rightarrow> (int \<times> bucket) list" where
  "get_windows window_size sstables =
     foldl (\<lambda>ws s. add_to_window (get_window_lower_bound window_size (max_timestamp s)) s ws) [] sstables"

definition trim_to_threshold :: "bucket \<Rightarrow> nat \<Rightarrow> bucket" where
  "trim_to_threshold b max_threshold =
     drop (length b - max_threshold) (sort_key generation b)"

definition switched_windows :: "int \<Rightarrow> int set \<Rightarrow> (int \<times> bucket) list \<Rightarrow> int set" where
  "switched_windows now size_tiered_windows buckets =
     size_tiered_windows \<union>
     set (map fst (filter (\<lambda>wb. fst wb < now \<and> length (snd wb) = 1) buckets))"

definition window_job ::
    "(bucket \<Rightarrow> sstable \<Rightarrow> bool) \<Rightarrow> nat \<Rightarrow> nat \<Rightarrow> int \<Rightarrow> int set \<Rightarrow> int \<times> bucket \<Rightarrow> bucket" where
  "window_job similar min_threshold max_threshold now size_tiered_windows wb =
     (let w = fst wb; b = snd wb
      in if now \<le> w \<or> w \<in> size_tiered_windows
         then most_interesting_bucket (get_buckets similar b) min_threshold max_threshold
         else if 2 \<le> length b then trim_to_threshold b max_threshold
         else [])"

fun first_job :: "bucket list \<Rightarrow> bucket" where
  "first_job [] = []"
| "first_job (j # js) = (if j \<noteq> [] then j else first_job js)"

definition newest_bucket ::
    "(bucket \<Rightarrow> sstable \<Rightarrow> bool) \<Rightarrow> int set \<Rightarrow> (int \<times> bucket) list \<Rightarrow> nat \<Rightarrow> nat \<Rightarrow> int \<Rightarrow> bucket \<times> int set" where
  "newest_bucket similar st buckets min_threshold max_threshold now =
     (let st' = switched_windows now st buckets
      in (first_job (map (window_job similar min_threshold max_threshold now st')
                      (rev (sort_key fst buckets))), st'))"

text \<open>The bucket list without a window, used to state what a window contributes.\<close>

definition without_window :: "int \<Rightarrow> (int \<times> bucket) list \<Rightarrow> (int \<times> bucket) list" where
  "without_window w buckets = filter (\<lambda>wb. fst wb \<noteq> w) buckets"

section \<open>The leveled strategy\<close>

text \<open>
  Modelled from the spec: the leveled manifest (compaction/leveled_manifest.hh) is not among
  the sources.  Level \<open>L \<ge> 1\<close> has the target size \<open>10 ^ (L - 1) * max_sstable_size\<close>; the
  level with the highest score (total size over target size) of at least 1 is compacted
  into the next one: the sstable of the level whose range starts after the last-compacted
  key (the first one again when there is none) together with the sstables of the next
  level that overlap it.  When no level qualifies, level 0 is taken: its oldest sstable and
  the level-0 sstables overlapping it, with the overlapping sstables of level 1, go to level
  1 when their total size reaches \<open>max_sstable_size\<close> (worth promoting); otherwise the
  size-tiered rule is applied inside level 0.  The starvation counter, which only adds
  sstables of deeper levels, is left out.
\<close>

record compaction_descriptor =
  sstables :: "sstable list"
  level :: nat

definition max_bytes_for_level :: "nat \<Rightarrow> nat \<Rightarrow> nat" where
  "max_bytes_for_level L max_sstable_size = 10 ^ (L - 1) * max_sstable_size"

definition get_level :: "sstable list \<Rightarrow> nat \<Rightarrow> sstable list" where
  "get_level all L = filter (\<lambda>s. sstable_level s = L) all"

definition sstable_overlaps :: "sstable \<Rightarrow> sstable \<Rightarrow> bool" where
  "sstable_overlaps a b \<longleftrightarrow> first_key a \<le> last_key b \<and> first_key b \<le> last_key a"

definition overlapping :: "sstable list \<Rightarrow> sstable list \<Rightarrow> sstable list" where
  "overlapping cands others = filter (\<lambda>s. \<exists>c \<in> set cands. sstable_overlaps c s) others"

text \<open>The levels from 1 on whose score is at least 1, and of those the one with the
  highest score (scores compared by cross-multiplication).\<close>

definition eligible_levels :: "sstable list \<Rightarrow> nat \<Rightarrow> nat list" where
  "eligible_levels all max_sstable_size =
     filter (\<lambda>L. 1 \<le> L \<and> max_bytes_for_level L max_sstable_size \<le> total_size (get_level all L))
       (sort (remdups (map sstable_level all)))"

definition score_less :: "sstable list \<Rightarrow> nat \<Rightarrow> nat \<Rightarrow> nat \<Rightarrow> bool" where
  "score_less all max_sstable_size L M \<longleftrightarrow>
     total_size (get_level all L) * max_bytes_for_level M max_sstable_size
       < total_size (get_level all M) * max_bytes_for_level L max_sstable_size"

fun highest_score :: "sstable list \<Rightarrow> nat \<Rightarrow> nat \<Rightarrow> nat list \<Rightarrow> nat" where
  "highest_score all max_sstable_size L [] = L"
| "highest_score all max_sstable_size L (M # Ms) =
     highest_score all max_sstable_size (if score_less all max_sstable_size L M then M else L) Ms"

definition pick_after :: "token option \<Rightarrow> sstable list \<Rightarrow> sstable list" where
  "pick_after last_compacted_key lvl =
     (let sorted_lvl = sort_key first_key lvl
      in case filter (\<lambda>s. case last_compacted_key of None \<Rightarrow> True | Some k \<Rightarrow> k < first_key s) sorted_lvl of
           s # _ \<Rightarrow> [s]
         | [] \<Rightarrow> take 1 sorted_lvl)"

definition get_compaction_candidates ::
    "(bucket \<Rightarrow> sstable \<Rightarrow> bool) \<Rightarrow> nat \<Rightarrow> nat \<Rightarrow> nat \<Rightarrow> (nat \<Rightarrow> token option) \<Rightarrow> sstable list
      \<Rightarrow> compaction_descriptor" where
  "get_compaction_candidates similar min_threshold max_threshold max_sstable_size last_compacted_keys all =
     (case eligible_levels all max_sstable_size of
        L # Ls \<Rightarrow>
          (let best = highest_score all max_sstable_size L Ls;
               picked = pick_after (last_compacted_keys best) (get_level all best)
           in \<lparr>sstables = picked @ overlapping picked (get_level all (best + 1)), level = best + 1\<rparr>)
      | [] \<Rightarrow>
          (case sort_key generation (get_level all 0) of
             [] \<Rightarrow> \<lparr>sstables = [], level = 0\<rparr>
           | oldest # others \<Rightarrow>
               (let cands = oldest # filter (sstable_overlaps oldest) others
                in if max_sstable_size \<le> total_size cands
                   then \<lparr>sstables = cands @ overlapping cands (get_level all 1), level = 1\<rparr>
                   else \<lparr>sstables = most_interesting_bucket (get_buckets similar (get_level all 0))
                                       min_threshold max_threshold,
                         level = 0\<rparr>)))"

section \<open>Compaction: merging and purging\<close>

text \<open>
  Modelled from the spec: the compaction executor (compaction/compaction.cc) and the
  mutation model are not among the sources.  A cell is live (with an optional expiry) or
  dead; a partition is an optional partition tombstone and its cells in ascending order of
  their position; an sstable is its partitions in ascending key order.
\<close>

record tombstone =
  timestamp :: int
  deletion_time :: time_point















section \<open>Example values\<close>

definition repair_schema :: schema where
  "repair_schema = \<lparr>schema_id = 1, gc_grace_seconds = 864000,
     tombstone_gc_options = \<lparr>mode = repair, propagation_delay_in_seconds = 3600\<rparr>\<rparr>"

definition repaired_0_10 :: repair_history_maps where
  "repaired_0_10 = [1 \<mapsto> [(interval_closed (key 0) (key 10), 100000)]]"

definition closed_range :: "int \<Rightarrow> int \<Rightarrow> token range" where
  "closed_range a b = Range (Some (Bound (key a) True)) (Some (Bound (key b) True))"

definition two_tables :: database where
  "two_tables = \<lparr>keyspaces = [''ks'' \<mapsto> \<lparr>replication_strategy_type = simple, replication_factor = 1\<rparr>],
     cluster_supports_tombstone_gc_options = True,
     column_families = [(1, \<lparr>cf_ks_name = ''ks''\<rparr>), (2, \<lparr>cf_ks_name = ''system''\<rparr>)]\<rparr>"

text \<open>The default similarity: within half and one and a half of the bucket's average.\<close>

definition within_half :: "bucket \<Rightarrow> sstable \<Rightarrow> bool" where
  "within_half b s \<longleftrightarrow>
     total_size b < 2 * data_size s * length b \<and> 2 * data_size s * length b < 3 * total_size b"

definition sized_sstable :: "nat \<Rightarrow> nat \<Rightarrow> sstable" where
  "sized_sstable g n = \<lparr>generation = g, sstable_level = 0, first_key = key 0, last_key = key 0,
     min_timestamp = 0, max_timestamp = 0, data_size = n\<rparr>"

definition four_similar :: bucket where
  "four_similar = map (\<lambda>g. sized_sstable g 1) [6, 7, 8, 9]"

definition three_current :: bucket where
  "three_current = map (\<lambda>g. sized_sstable g 1) [2, 3, 4]"

definition one_collapsed :: bucket where
  "one_collapsed = [sized_sstable 6 1]"

definition one_past :: bucket where
  "one_past = [sized_sstable 1 1]"

definition two_past :: bucket where
  "two_past = [sized_sstable 1 1, sized_sstable 5 1]"

definition leveled_sstable :: "nat \<Rightarrow> nat \<Rightarrow> int \<Rightarrow> int \<Rightarrow> nat \<Rightarrow> sstable" where
  "leveled_sstable g l f t n = \<lparr>generation = g, sstable_level = l, first_key = key f, last_key = key t,
     min_timestamp = 0, max_timestamp = 0, data_size = n\<rparr>"




section \<open>Properties of the interval map\<close>

lemma wf_Cons: "wf (((l, h), w) # m) \<longleftrightarrow> l < h \<and> w \<noteq> identity_element \<and> lb h m \<and> nj h w m \<and> wf m"
  by (cases m) auto

lemma lb_mono: "lb c m \<Longrightarrow> c' \<le> c \<Longrightarrow> lb c' m"
  by (cases m) auto

lemma lookup_lb: "wf m \<Longrightarrow> lb c m \<Longrightarrow> c' < c \<Longrightarrow> lookup m c' = None"
proof (induction m arbitrary: c)
  case Nil then show ?case by simp
next
  case (Cons s m)
  obtain l h w where s: "s = ((l, h), w)" by (metis surj_pair)
  from Cons.prems have "lb h m" "wf m" "l < h" "c \<le> l" by (auto simp: s wf_Cons)
  with Cons.IH[of h] Cons.prems show ?case by (auto simp: s)
qed

lemma lookup_join_cons: "fst (fst s) < snd (fst s) \<Longrightarrow> wf m \<Longrightarrow> lookup (join_cons s m) c = lookup (s # m) c"
  by (cases m; cases s) (auto simp: wf_Cons)

lemma lb_join_cons: "lb c (join_cons s m) = lb c (s # m)"
  by (cases m; cases s) auto

lemma wf_join_cons: "l < h \<Longrightarrow> w \<noteq> identity_element \<Longrightarrow> lb h m \<Longrightarrow> wf m \<Longrightarrow> wf (join_cons ((l, h), w) m)"
  by (cases m) (auto simp: wf_Cons)

lemma nj_join_cons: "nj c v (join_cons ((l, h), w) m) = nj c v (((l, h), w) # m)"
  by (cases m) (auto)

lemma lb_add_segment: "lb c m \<Longrightarrow> c \<le> lo \<Longrightarrow> lb c (add_segment lo hi v m)"
  by (induction lo hi v m rule: add_segment.induct) (auto simp: lb_join_cons Let_def)

lemma wf_add_segment: "wf m \<Longrightarrow> lo < hi \<Longrightarrow> v \<noteq> identity_element \<Longrightarrow> wf (add_segment lo hi v m)"
proof (induction lo hi v m rule: add_segment.induct)
  case (1 lo hi v)
  then show ?case by simp
next
  case (2 lo hi v l h w rest)
  from "2.prems" have wfr: "wf rest" "l < h" "w \<noteq> identity_element" "lb h rest" by (auto simp: wf_Cons)
  show ?case
  proof (cases "hi \<le> l")
    case True
    with 2 show ?thesis by (simp del: join_cons.simps wf.simps) (intro wf_join_cons, auto)
  next
    case False
    note nhl = this
    show ?thesis
    proof (cases "h \<le> lo")
      case True
      with 2 nhl wfr show ?thesis by (auto intro!: wf_join_cons lb_add_segment)
    next
      case False
      define tail where "tail = (if hi < h then ((hi, h), w) # rest
                    else if h < hi then add_segment h hi v rest
                    else rest)"
      have wft: "wf tail" using 2 nhl False wfr 
        by (auto simp: tail_def wf_Cons) 
      have lbt: "lb (min hi h) tail" using nhl False wfr 
        by (auto simp: tail_def intro: lb_add_segment)
      have mx: "max w v \<noteq> identity_element" using wfr "2.prems" by (auto simp: max_def)
      have wfj: "wf (join_cons ((max lo l, min hi h), max w v) tail)"
        using nhl False wft lbt mx "2.prems" wfr by (intro wf_join_cons) auto
      define joined where "joined = join_cons ((max lo l, min hi h), max w v) tail"
      have lbj: "lb (max lo l) joined" by (simp add: joined_def lb_join_cons)
      have res: "add_segment lo hi v (((l, h), w) # rest) =
          (if lo < l then join_cons ((lo, l), v) joined
           else if l < lo then join_cons ((l, lo), w) joined else joined)"
        using nhl False by (simp add: Let_def tail_def joined_def)
      have "wf (join_cons ((lo, l), v) joined)" if "lo < l"
        using that wfj lbj "2.prems" by (intro wf_join_cons) (auto simp: joined_def max_def)
      moreover have "wf (join_cons ((l, lo), w) joined)" if "l < lo"
        using that wfj lbj wfr by (intro wf_join_cons) (auto simp: joined_def max_def)
      ultimately show ?thesis using wfj unfolding res joined_def[symmetric] by auto
    qed
  qed
qed

lemma lookup_add_segment:
  "wf m \<Longrightarrow> lo < hi \<Longrightarrow> v \<noteq> identity_element \<Longrightarrow>
   lookup (add_segment lo hi v m) c =
     (if lo \<le> c \<and> c < hi then Some (merge_value (lookup m c) v) else lookup m c)"
proof (induction lo hi v m rule: add_segment.induct)
  case (1 lo hi v)
  then show ?case by (simp add: merge_value_def)
next
  case (2 lo hi v l h w rest)
  from "2.prems" have wfr: "wf rest" "l < h" "w \<noteq> identity_element" "lb h rest" by (auto simp: wf_Cons)
  have none_rest: "lookup rest c' = None" if "c' < h" for c'
    using lookup_lb[OF wfr(1) wfr(4) that] .
  show ?case
  proof (cases "hi \<le> l")
    case True
    have "lookup rest c = None" if "c < hi" using that True wfr none_rest[of c] by auto
    with True 2 wfr show ?thesis
      by (simp add: lookup_join_cons merge_value_def del: join_cons.simps) auto
  next
    case False
    note nhl = this
    show ?thesis
    proof (cases "h \<le> lo")
      case True
      have wfa: "wf (add_segment lo hi v rest)" using wfr "2.prems" by (intro wf_add_segment) auto
      from True nhl 2 wfr wfa show ?thesis
        by (simp add: lookup_join_cons del: join_cons.simps) auto
    next
      case False
      define tail where "tail = (if hi < h then ((hi, h), w) # rest
                    else if h < hi then add_segment h hi v rest
                    else rest)"
      have wft: "wf tail" using 2 nhl False wfr 
        by (auto simp: tail_def wf_Cons intro: wf_add_segment) 
      have lbt: "lb (min hi h) tail" using nhl False wfr 
        by (auto simp: tail_def intro: lb_add_segment)
      have mx: "max w v \<noteq> identity_element" using wfr "2.prems" by (auto simp: max_def)
      define joined where "joined = join_cons ((max lo l, min hi h), max w v) tail"
      have wfj: "wf joined" unfolding joined_def
        using nhl False wft lbt mx "2.prems" wfr by (intro wf_join_cons) auto
      have res: "add_segment lo hi v (((l, h), w) # rest) =
          (if lo < l then join_cons ((lo, l), v) joined
           else if l < lo then join_cons ((l, lo), w) joined else joined)"
        using nhl False by (simp add: Let_def tail_def joined_def)
      have lt: "lookup tail c = (if hi \<le> c \<and> c < h then Some w 
            else if h \<le> c \<and> c < hi then Some (merge_value (lookup rest c) v) else lookup rest c)"
        using nhl False wfr 2 none_rest[of c] by (auto simp: tail_def)
      have lj: "lookup joined c = (if max lo l \<le> c \<and> c < min hi h then Some (max w v) else lookup tail c)"
        unfolding joined_def using nhl False "2.prems" wfr wft
        by (subst lookup_join_cons) auto
      have lres: "lookup (add_segment lo hi v (((l, h), w) # rest)) c =
         (if lo < l \<and> lo \<le> c \<and> c < l then Some v else if l < lo \<and> l \<le> c \<and> c < lo then Some w else lookup joined c)"
        unfolding res using wfj by (auto simp: lookup_join_cons simp del: join_cons.simps)
      show ?thesis unfolding lres lj lt using nhl False wfr "2.prems" none_rest[of c]
        by (auto simp: merge_value_def)
    qed
  qed
qed

lemma segments_ext:
  "wf m1 \<Longrightarrow> wf m2 \<Longrightarrow> (\<And>c. lookup m1 c = lookup m2 c) \<Longrightarrow> m1 = m2"
proof (induction m1 arbitrary: m2)
  case Nil
  show ?case
  proof (cases m2)
    case Nil then show ?thesis by simp
  next
    case (Cons s m)
    obtain l h w where s: "s = ((l, h), w)" by (metis surj_pair)
    from Nil.prems(2) have "l < h" by (simp add: Cons s wf_Cons)
    then have "lookup m2 l = Some w" by (simp add: Cons s)
    with Nil.prems(3)[of l] show ?thesis by simp
  qed
next
  case (Cons s1 r1)
  obtain l1 h1 w1 where s1: "s1 = ((l1, h1), w1)" by (metis surj_pair)
  from Cons.prems(1) have w1: "l1 < h1" "wf r1" "lb h1 r1" "nj h1 w1 r1" by (auto simp: s1 wf_Cons)
  have l1: "lookup (s1 # r1) l1 = Some w1" using w1 by (simp add: s1)
  show ?case
  proof (cases m2)
    case Nil
    with Cons.prems(3)[of l1] l1 show ?thesis by simp
  next
    case (Cons s2 r2)
    obtain l2 h2 w2 where s2: "s2 = ((l2, h2), w2)" by (metis surj_pair)
    from Cons.prems(2) have w2: "l2 < h2" "wf r2" "lb h2 r2" "nj h2 w2 r2" by (auto simp: Cons s2 wf_Cons)
    have eq: "lookup (((l1, h1), w1) # r1) c = lookup (((l2, h2), w2) # r2) c" for c
      using Cons.prems(3)[of c] by (simp add: s1 s2 Cons)
    have n1: "lookup r1 c = None" if "c < h1" for c using lookup_lb[OF w1(2) w1(3) that] .
    have n2: "lookup r2 c = None" if "c < h2" for c using lookup_lb[OF w2(2) w2(3) that] .
    have ll: "l1 = l2"
    proof (rule ccontr)
      assume "l1 \<noteq> l2"
      then consider "l1 < l2" | "l2 < l1" by fastforce
      then show False
      proof cases
        case 1 then show ?thesis using eq[of l1] w1 w2 n2[of l1] by (auto split: if_splits)
      next
        case 2
        then have "l2 < h1" using w1(1) by simp
        from n1[OF this] 2 show ?thesis using eq[of l2] w2 by (auto split: if_splits)
      qed
    qed
    have ww: "w1 = w2" using eq[of l1] w1 w2 ll by auto
    have first: "False" if "h < h'" "l < h" "wf r" "lb h r" "nj h w r" 
        "\<And>c. lookup (((l, h), w) # r) c = lookup (((l, h'), w) # r') c" for l h h' w and r r' :: "'a segments"
    proof -
      have "lookup (((l, h'), w) # r') h = Some w" using that by auto
      with that(6)[of h] have lr: "lookup r h = Some w" by simp
      show False
      proof (cases r)
        case Nil with lr show ?thesis by simp
      next
        case (Cons s r0)
        obtain a b x where s: "s = ((a, b), x)" by (metis surj_pair)
        from that Cons s have *: "h \<le> a" "h = a \<longrightarrow> w \<noteq> x" "wf r0" "lb b r0" "a < b" by (auto simp: wf_Cons)
        then have "h < b" by simp
        from lookup_lb[OF *(3) *(4) this] * show ?thesis using lr by (auto simp: Cons s split: if_splits)
      qed
    qed
    have hh: "h1 = h2"
    proof (rule ccontr)
      assume "h1 \<noteq> h2"
      then consider "h1 < h2" | "h2 < h1" by fastforce
      then show False
      proof cases
        case 1 
        show ?thesis using first[OF 1 w1(1) w1(2) w1(3) w1(4), of r2] eq ll ww by simp
      next
        case 2 
        show ?thesis using first[OF 2 w2(1) w2(2) w2(3) w2(4), of r1] eq ll ww by simp
      qed
    qed
    have "lookup r1 c = lookup r2 c" for c
      using eq[of c] ll hh ww n1[of c] n2[of c] by (auto split: if_splits)
    from Cons.IH[OF w1(2) w2(2) this] show ?thesis by (simp add: Cons s1 s2 ll hh ww)
  qed
qed

lemma overlaps_singleton:
  fixes l h :: "'a::linorder cut"
  shows "overlaps (l, h) (interval_closed x x) \<longleftrightarrow> l \<le> (x, False) \<and> (x, False) < h"
  by (cases l; cases h) (auto simp: overlaps_def exclusive_less_def is_empty_interval_def interval_closed_def)

lemma find_lookup: "map_option snd (interval_map_find m x) = lookup m (x, False)"
  unfolding interval_map_find_def
  by (induction m) (auto simp: overlaps_singleton)

lemma find_Some_mem: "interval_map_find m x = Some it \<Longrightarrow> it \<in> set m \<and> overlaps (fst it) (interval_closed x x)"
  unfolding interval_map_find_def by (auto simp: find_Some_iff)

lemma saturating_subtract_min: "0 \<le> d \<Longrightarrow> saturating_subtract time_point_min d = time_point_min"
  by (simp add: saturating_subtract_def)

lemma saturating_subtract_mono: "t1 \<le> t2 \<Longrightarrow> saturating_subtract t1 d \<le> saturating_subtract t2 d"
  by (simp add: saturating_subtract_def)

lemma saturating_subtract_ge_min: "time_point_min \<le> saturating_subtract t d"
  by (simp add: saturating_subtract_def)

lemma wf_add: "wf m \<Longrightarrow> wf (add m seg)"
  by (auto simp: add_def Let_def is_empty_interval_def intro: wf_add_segment)

lemma lookup_add:
  "wf m \<Longrightarrow> lookup (add m (i, v)) c =
     (if fst i \<le> c \<and> c < snd i \<and> v \<noteq> identity_element
      then Some (merge_value (lookup m c) v) else lookup m c)"
  by (auto simp: add_def Let_def is_empty_interval_def lookup_add_segment)

lemma merge_value_idem: "merge_value (Some (merge_value old v)) v = merge_value old v"
  by (simp add: merge_value_def split: option.splits)

lemma add_idem: 
  assumes "wf m" shows "add (add m seg) seg = add m seg"
proof (rule segments_ext)
  show "wf (add (add m seg) seg)" using assms by (intro wf_add)
  show "wf (add m seg)" using assms by (rule wf_add)
  fix c
  obtain i v where seg: "seg = (i, v)" by (cases seg)
  show "lookup (add (add m seg) seg) c = lookup (add m seg) c"
    unfolding seg by (simp add: lookup_add wf_add assms merge_value_idem)
qed

lemma cut_after_le: "(x, True) \<le> (h :: 'a::linorder cut) \<longleftrightarrow> (x, False) < h"
  by (cases h) auto

lemma recorded_update:
  assumes "maps_wf maps s"
  shows "recorded_repair_time (update_repair_time maps s rng t) s x =
           (if interval_contains (range_to_interval rng) x \<and> t \<noteq> identity_element
            then Some (merge_value (recorded_repair_time maps s x) t)
            else recorded_repair_time maps s x)"
  using assms
  by (auto simp: recorded_repair_time_def update_repair_time_def maps_wf_def
      get_or_create_repair_history_map_for_table_def get_repair_history_map_for_table_def
      find_lookup lookup_add interval_contains_def cut_after_le
      split: option.splits)

lemma update_idem:
  assumes "maps_wf maps s"
  shows "update_repair_time (update_repair_time maps s rng t) s rng t = update_repair_time maps s rng t"
  using assms
  by (auto simp: update_repair_time_def maps_wf_def add_idem
      get_or_create_repair_history_map_for_table_def split: option.splits)

lemma gc_key_recorded:
  "get_gc_before_for_key maps s dk qt =
     (case mode (tombstone_gc_options s) of
        timeout \<Rightarrow> saturating_subtract qt (gc_grace_seconds s)
      | disabled \<Rightarrow> time_point_min
      | immediate \<Rightarrow> time_point_max
      | repair \<Rightarrow> (case recorded_repair_time maps s (dk_token dk) of None \<Rightarrow> time_point_min
           | Some v \<Rightarrow> saturating_subtract v (propagation_delay_in_seconds (tombstone_gc_options s))))"
  by (auto simp: get_gc_before_for_key_def recorded_repair_time_def split: tombstone_gc_mode.splits option.splits)

lemma gc_key_update_mono:
  assumes "maps_wf maps s"
  shows "get_gc_before_for_key maps s dk qt \<le> get_gc_before_for_key (update_repair_time maps s rng t) s dk qt"
  unfolding gc_key_recorded recorded_update[OF assms]
  by (auto simp: merge_value_def saturating_subtract_ge_min intro!: saturating_subtract_mono
      split: tombstone_gc_mode.splits option.splits)

subsection \<open>Range and key queries\<close>

lemma scan_entries_props:
  "scan_entries xs rng (mn, mx, h, ca) = (mn', mx', h', ca') \<Longrightarrow>
     h' = h + length xs \<and> mn' \<le> mn \<and> mx \<le> mx' \<and>
     (\<forall>x\<in>set xs. mn' \<le> snd x \<and> snd x \<le> mx') \<and>
     (ca' \<longrightarrow> ca \<or> (h = 0 \<and> xs \<noteq> [] \<and> range_contains (interval_to_range (fst (hd xs))) rng))"
proof (induction xs arbitrary: mn mx h ca)
  case Nil
  then show ?case by simp
next
  case (Cons x xs)
  let ?ca = "if h + 1 = 1 \<and> range_contains (interval_to_range (fst x)) rng then True else ca"
  from Cons.prems have "scan_entries xs rng (min (snd x) mn, max (snd x) mx, h + 1, ?ca) = (mn', mx', h', ca')"
    by (simp add: Let_def)
  from Cons.IH[OF this] show ?case by (auto split: if_splits)
qed

lemma key_in_range_interval:
  "range_contains_point rng x \<Longrightarrow> token_kind x = 1 \<Longrightarrow> interval_contains (range_to_interval rng) x"
  by (cases x)
     (auto simp: range_contains_point_def range_to_interval_def interval_contains_def
        interval_open_def interval_left_open_def interval_right_open_def interval_closed_def
        minimum_token_def maximum_token_def less_token_def less_eq_token_def tri_compare_def
        split: option.splits if_splits)

lemma overlaps_point:
  fixes i j :: "'a::linorder interval"
  assumes "overlaps i (interval_closed x x)" and "interval_contains j x"
  shows "overlaps i j"
proof -
  obtain l h where i: "i = (l, h)" by (cases i)
  obtain jl jh where j: "j = (jl, jh)" by (cases j)
  define c where "c = (x, False)"
  from assms(1) have 1: "l \<le> c" "c < h" unfolding i c_def by (simp_all only: overlaps_singleton)
  from assms(2) have 2: "jl \<le> c" "c < jh"
    unfolding j c_def interval_contains_def cut_after_le by (simp_all only: fst_conv snd_conv)
  have "l < h" "jl < jh" "\<not> h \<le> jl" "\<not> jh \<le> l" using 1 2 by order+
  then show ?thesis unfolding i j overlaps_def exclusive_less_def is_empty_interval_def
    by (simp only: fst_conv snd_conv simp_thms)
qed

lemma range_contains_interval_point:
  fixes i :: "'a::linorder interval"
  shows "range_contains (interval_to_range i) rng \<Longrightarrow> range_contains_point rng x \<Longrightarrow> interval_contains i x"
  by (cases i) (auto simp: range_contains_def interval_to_range_def range_contains_point_def interval_contains_def
      start_cut_def end_cut_def split: option.splits if_splits)

lemma contains_overlaps_singleton:
  fixes i :: "'a::linorder interval"
  shows "interval_contains i x \<Longrightarrow> overlaps i (interval_closed x x)"
  by (cases i) (auto simp: overlaps_singleton interval_contains_def cut_after_le)

lemma range_min_le_max:
  "min_gc_before (get_gc_before_for_range maps s rng qt) \<le> max_gc_before (get_gc_before_for_range maps s rng qt)"
proof (cases "mode (tombstone_gc_options s)")
  case repair
  show ?thesis
  proof (cases "maps (schema_id s)")
    case None
    with repair show ?thesis by (simp add: get_gc_before_for_range_def Let_def get_repair_history_map_for_table_def)
  next
    case (Some m)
    obtain mn mx h ca where sc: "scan_entries (map_equal_range m (range_to_interval rng)) rng
                              (time_point_max, time_point_min, 0, False) = (mn, mx, h, ca)"
      by (metis prod_cases4)
    from scan_entries_props[OF sc] have "h \<noteq> 0 \<Longrightarrow> mn \<le> mx"
      by (cases "map_equal_range m (range_to_interval rng)") (auto)
    with repair Some sc show ?thesis
      by (auto simp: get_gc_before_for_range_def Let_def get_repair_history_map_for_table_def
          intro: saturating_subtract_mono)
  qed
qed (simp_all add: get_gc_before_for_range_def Let_def)

lemma range_non_repair:
  "mode (tombstone_gc_options s) \<noteq> repair \<Longrightarrow>
     min_gc_before (get_gc_before_for_range maps s rng qt) = max_gc_before (get_gc_before_for_range maps s rng qt) \<and>
     knows_entire_range (get_gc_before_for_range maps s rng qt) \<and>
     get_gc_before_for_key maps s dk qt = min_gc_before (get_gc_before_for_range maps s rng qt)"
  by (cases "mode (tombstone_gc_options s)")
     (simp_all add: get_gc_before_for_range_def Let_def get_gc_before_for_key_def)

lemma key_within_range_repair:
  assumes rep: "mode (tombstone_gc_options s) = repair"
      and inr: "range_contains_point rng (dk_token dk)" and kk: "token_kind (dk_token dk) = 1"
  shows "get_gc_before_for_key maps s dk qt \<le> max_gc_before (get_gc_before_for_range maps s rng qt) \<and>
     (knows_entire_range (get_gc_before_for_range maps s rng qt) \<or> recorded_repair_time maps s (dk_token dk) \<noteq> None
       \<longrightarrow> min_gc_before (get_gc_before_for_range maps s rng qt) \<le> get_gc_before_for_key maps s dk qt)"
proof (cases "maps (schema_id s)")
  case None
  with rep show ?thesis
    by (simp add: get_gc_before_for_range_def Let_def get_gc_before_for_key_def get_repair_history_map_for_table_def
        recorded_repair_time_def)
next
  case (Some m)
  let ?d = "propagation_delay_in_seconds (tombstone_gc_options s)"
  let ?q = "range_to_interval rng"
  obtain mn mx h ca where sc: "scan_entries (map_equal_range m ?q) rng
                            (time_point_max, time_point_min, 0, False) = (mn, mx, h, ca)"
    by (metis prod_cases4)
  note props = scan_entries_props[OF sc]
  have cq: "interval_contains ?q (dk_token dk)" using inr kk by (rule key_in_range_interval)
  have R: "get_gc_before_for_range maps s rng qt =
      (if h = 0 then \<lparr>min_gc_before = saturating_subtract time_point_min ?d,
                      max_gc_before = saturating_subtract time_point_min ?d, knows_entire_range = False\<rparr>
       else \<lparr>min_gc_before = saturating_subtract mn ?d,
                      max_gc_before = saturating_subtract mx ?d, knows_entire_range = (h = 1 \<and> ca)\<rparr>)"
    using rep Some sc by (simp add: get_gc_before_for_range_def Let_def get_repair_history_map_for_table_def)
  show ?thesis
  proof (cases "interval_map_find m (dk_token dk)")
    case None
    then have K: "get_gc_before_for_key maps s dk qt = time_point_min"
      using rep Some by (simp add: get_gc_before_for_key_def get_repair_history_map_for_table_def)
    have rec: "recorded_repair_time maps s (dk_token dk) = None"
      using None Some by (simp add: recorded_repair_time_def get_repair_history_map_for_table_def)
    have "\<not> (h = 1 \<and> ca)"
    proof
      assume hc: "h = 1 \<and> ca"
      with props obtain x where x: "map_equal_range m ?q = [x]" "range_contains (interval_to_range (fst x)) rng"
        by (cases "map_equal_range m ?q") auto
      then have xm: "x \<in> set m" by (metis filter_is_subset list.set_intros(1) map_equal_range_def subsetD)
      have "interval_contains (fst x) (dk_token dk)" using x(2) inr by (rule range_contains_interval_point)
      then have "overlaps (fst x) (interval_closed (dk_token dk) (dk_token dk))"
        by (rule contains_overlaps_singleton)
      moreover from None have "\<forall>y\<in>set m. \<not> overlaps (fst y) (interval_closed (dk_token dk) (dk_token dk))"
        unfolding interval_map_find_def find_None_iff by blast
      ultimately show False using xm by blast
    qed
    then show ?thesis unfolding K rec R by (auto simp: saturating_subtract_ge_min)
  next
    case (Some it)
    from find_Some_mem[OF Some] have itm: "it \<in> set m" and ov: "overlaps (fst it) (interval_closed (dk_token dk) (dk_token dk))"
      by auto
    from overlaps_point[OF ov cq] itm have "it \<in> set (map_equal_range m ?q)"
      by (simp add: map_equal_range_def)
    with props have b: "mn \<le> snd it" "snd it \<le> mx" "h \<noteq> 0" by auto
    have K: "get_gc_before_for_key maps s dk qt = saturating_subtract (snd it) ?d"
      using rep Some \<open>maps (schema_id s) = Some m\<close>
      by (simp add: get_gc_before_for_key_def get_repair_history_map_for_table_def)
    show ?thesis unfolding K R using b by (auto intro: saturating_subtract_mono)
  qed
qed

section \<open>Properties of draining\<close>

lemma set_parallel_for_each:
  "t \<in> parallel_for_each flush_ok us \<Longrightarrow>
     set t = (\<Union>u \<in> set us. {flush_begin u, if flush_ok u then flush_end u else flush_failed u})"
proof (induction us arbitrary: t)
  case Nil then show ?case by simp
next
  case (Cons u us)
  then obtain t' where t': "t' \<in> parallel_for_each flush_ok us" "t \<in> shuffles (flush flush_ok u) t'" by auto
  from set_shuffles[OF t'(2)] Cons.IH[OF t'(1)] show ?case by (auto simp: flush_def)
qed

lemma split_order:
  assumes "t = P @ Q" "i < length t" "j < length t" "t ! i \<notin> set Q" "t ! j \<notin> set P"
  shows "i < j"
proof -
  have "i < length P" using assms(1,2,4) by (metis nth_append nth_mem add_diff_inverse_nat length_append nat_add_left_cancel_less)
  moreover have "\<not> j < length P" using assms(1,5) by (metis nth_append nth_mem)
  ultimately show ?thesis by simp
qed

lemma disjoint_cfs:
  "distinct (map fst (get_column_families db)) \<Longrightarrow> fst ` set (non_system_cfs db) \<inter> fst ` set (system_cfs db) = {}"
  unfolding non_system_cfs_def system_cfs_def
  by (auto simp: distinct_map inj_on_def)

lemma user_events_parallel:
  "p \<in> flush_non_system_column_families flush_ok db \<Longrightarrow> e \<in> set p \<Longrightarrow> user_flush_event db e"
  unfolding flush_non_system_column_families_def
  by (drule set_parallel_for_each) (force simp: user_flush_event_def split: if_splits)

lemma system_events_parallel:
  "p \<in> flush_system_column_families flush_ok db \<Longrightarrow> e \<in> set p \<Longrightarrow> system_flush_event db e"
  unfolding flush_system_column_families_def
  by (drule set_parallel_for_each) (force simp: system_flush_event_def split: if_splits)

lemma user_not_system:
  "distinct (map fst (get_column_families db)) \<Longrightarrow> user_flush_event db e \<Longrightarrow> \<not> system_flush_event db e"
  using disjoint_cfs[of db] by (auto simp: user_flush_event_def system_flush_event_def split: option.splits)

lemma user_not_other [simp]:
  "\<not> user_flush_event db compaction_manager_drain"
  "\<not> user_flush_event db stop_barrier_arrive_and_wait"
  "\<not> user_flush_event db commitlog_shutdown"
  "\<not> system_flush_event db compaction_manager_drain"
  "\<not> system_flush_event db stop_barrier_arrive_and_wait"
  "\<not> system_flush_event db commitlog_shutdown"
  by (simp_all add: user_flush_event_def system_flush_event_def)

lemma parallel_for_each_nonempty: "parallel_for_each flush_ok us \<noteq> {}"
proof (induction us)
  case Nil then show ?case by simp
next
  case (Cons u us)
  then obtain t where "t \<in> parallel_for_each flush_ok us" by blast
  moreover have "flush flush_ok u @ t \<in> shuffles (flush flush_ok u) t"
    by (simp add: flush_def Cons_in_shuffles_leftI)
  ultimately show ?case by auto
qed

lemma drain_nonempty: "drain flush_ok db \<noteq> {}"
proof -
  obtain p1 where "p1 \<in> flush_non_system_column_families flush_ok db"
    using parallel_for_each_nonempty unfolding flush_non_system_column_families_def by blast
  moreover obtain p2 where "p2 \<in> flush_system_column_families flush_ok db"
    using parallel_for_each_nonempty unfolding flush_system_column_families_def by blast
  ultimately show ?thesis unfolding drain_def by blast
qed

lemma drain_trace_order:
  assumes dist: "distinct (map fst (get_column_families db))" and t: "t \<in> drain flush_ok db"
  shows "t ! 0 = compaction_manager_drain \<and>
         (\<forall>i < length t. 0 < i \<longrightarrow> t ! i \<noteq> compaction_manager_drain) \<and>
         (\<forall>u \<in> fst ` set (non_system_cfs db). flush_begin u \<in> set t \<and>
              (flush_end u \<in> set t \<or> flush_failed u \<in> set t)) \<and>
         (\<forall>i < length t. \<forall>j < length t. user_flush_event db (t ! i) \<longrightarrow>
              system_flush_event db (t ! j) \<or> t ! j = commitlog_shutdown \<longrightarrow> i < j) \<and>
         (\<forall>i < length t. \<forall>j < length t. system_flush_event db (t ! i) \<longrightarrow>
              t ! j = commitlog_shutdown \<longrightarrow> i < j) \<and>
         ((\<exists>e \<in> set t. system_flush_event db e \<or> e = commitlog_shutdown) \<longrightarrow>
              (\<forall>u \<in> fst ` set (non_system_cfs db). flush_end u \<in> set t)) \<and>
         ((\<forall>u \<in> fst ` set (non_system_cfs db). flush_ok u) \<longrightarrow>
              (\<forall>u \<in> fst ` set (system_cfs db). flush_begin u \<in> set t \<and>
                 (flush_end u \<in> set t \<or> flush_failed u \<in> set t))) \<and>
         ((\<forall>u \<in> fst ` set (get_column_families db). flush_ok u) \<longrightarrow>
              (\<forall>u \<in> fst ` set (system_cfs db). flush_end u \<in> set t) \<and>
              commitlog_shutdown \<in> set t \<and> last t = commitlog_shutdown)"
proof -
  from t obtain p1 p2 where
    p1: "p1 \<in> flush_non_system_column_families flush_ok db" and
    p2: "p2 \<in> flush_system_column_families flush_ok db" and
    teq: "t = [compaction_manager_drain, stop_barrier_arrive_and_wait] @ p1 @
      (if \<forall>u \<in> set (map fst (non_system_cfs db)). flush_ok u
       then [stop_barrier_arrive_and_wait] @ p2 @
            (if \<forall>u \<in> set (map fst (system_cfs db)). flush_ok u
             then [stop_barrier_arrive_and_wait, commitlog_shutdown] else [])
       else [])"
    unfolding drain_def by blast
  define P where "P = [compaction_manager_drain, stop_barrier_arrive_and_wait] @ p1"
  define Q where "Q = (if \<forall>u \<in> set (map fst (non_system_cfs db)). flush_ok u
       then [stop_barrier_arrive_and_wait] @ p2 @
            (if \<forall>u \<in> set (map fst (system_cfs db)). flush_ok u
             then [stop_barrier_arrive_and_wait, commitlog_shutdown] else [])
       else [])"
  have tPQ: "t = P @ Q" by (simp add: teq P_def Q_def)
  have setp1: "set p1 = (\<Union>u \<in> fst ` set (non_system_cfs db). {flush_begin u, if flush_ok u then flush_end u else flush_failed u})"
    using set_parallel_for_each[OF p1[unfolded flush_non_system_column_families_def]] by simp
  have up1: "\<And>e. e \<in> set p1 \<Longrightarrow> user_flush_event db e" using user_events_parallel[OF p1] .
  have sp2: "\<And>e. e \<in> set p2 \<Longrightarrow> system_flush_event db e" using system_events_parallel[OF p2] .
  have Q_no_user: "\<not> user_flush_event db e" if "e \<in> set Q" for e
    using that sp2[of e] user_not_system[OF dist, of e] by (auto simp: Q_def split: if_splits)
  have P_no_sys: "\<not> (system_flush_event db e \<or> e = commitlog_shutdown)" if "e \<in> set P" for e
    using that up1[of e] user_not_system[OF dist, of e] by (auto simp: P_def)
  have c1: "t ! 0 = compaction_manager_drain" by (simp add: teq)
  have c2: "\<forall>i < length t. 0 < i \<longrightarrow> t ! i \<noteq> compaction_manager_drain"
  proof (intro allI impI)
    fix i assume i: "i < length t" "0 < i"
    have "t ! i \<in> set (tl t)" using i by (metis Suc_pred length_tl less_diff_conv nth_mem nth_tl Suc_eq_plus1)
    moreover have "compaction_manager_drain \<notin> set (tl t)"
      using up1[of compaction_manager_drain] sp2[of compaction_manager_drain] by (auto simp: teq split: if_splits)
    ultimately show "t ! i \<noteq> compaction_manager_drain" by metis
  qed
  have c3: "\<forall>u \<in> fst ` set (non_system_cfs db). flush_begin u \<in> set t \<and>
              (flush_end u \<in> set t \<or> flush_failed u \<in> set t)"
  proof
    fix u assume "u \<in> fst ` set (non_system_cfs db)"
    then have "flush_begin u \<in> set p1" "flush_end u \<in> set p1 \<or> flush_failed u \<in> set p1"
      unfolding setp1 by auto
    then show "flush_begin u \<in> set t \<and> (flush_end u \<in> set t \<or> flush_failed u \<in> set t)"
      by (auto simp: teq)
  qed
  have c4: "\<forall>i < length t. \<forall>j < length t. user_flush_event db (t ! i) \<longrightarrow>
              system_flush_event db (t ! j) \<or> t ! j = commitlog_shutdown \<longrightarrow> i < j"
  proof (intro allI impI)
    fix i j assume ij: "i < length t" "j < length t" and u: "user_flush_event db (t ! i)"
      and s: "system_flush_event db (t ! j) \<or> t ! j = commitlog_shutdown"
    from u Q_no_user have "t ! i \<notin> set Q" by blast
    moreover from s P_no_sys have "t ! j \<notin> set P" by blast
    ultimately show "i < j" using split_order[OF tPQ ij] by blast
  qed
  have c5: "\<forall>i < length t. \<forall>j < length t. system_flush_event db (t ! i) \<longrightarrow>
              t ! j = commitlog_shutdown \<longrightarrow> i < j"
  proof (intro allI impI)
    fix i j assume ij: "i < length t" "j < length t" and s: "system_flush_event db (t ! i)"
      and c: "t ! j = commitlog_shutdown"
    define P' where "P' = P @ (if \<forall>u \<in> set (map fst (non_system_cfs db)). flush_ok u
       then [stop_barrier_arrive_and_wait] @ p2 else [])"
    define Q' where "Q' = (if (\<forall>u \<in> set (map fst (non_system_cfs db)). flush_ok u) \<and> (\<forall>u \<in> set (map fst (system_cfs db)). flush_ok u)
             then [stop_barrier_arrive_and_wait, commitlog_shutdown] else [])"
    have tPQ': "t = P' @ Q'" by (simp add: teq P_def P'_def Q'_def)
    have "t ! i \<notin> set Q'" using s by (auto simp: Q'_def split: if_splits)
    moreover have "commitlog_shutdown \<notin> set P'"
      using up1[of commitlog_shutdown] sp2[of commitlog_shutdown] by (auto simp: P'_def P_def split: if_splits)
    ultimately show "i < j" using split_order[OF tPQ' ij] c by simp
  qed
  have c6: "(\<exists>e \<in> set t. system_flush_event db e \<or> e = commitlog_shutdown) \<longrightarrow>
              (\<forall>u \<in> fst ` set (non_system_cfs db). flush_end u \<in> set t)"
  proof (intro impI ballI)
    fix u assume ex: "\<exists>e \<in> set t. system_flush_event db e \<or> e = commitlog_shutdown"
      and u: "u \<in> fst ` set (non_system_cfs db)"
    from ex P_no_sys have "Q \<noteq> []" unfolding tPQ by auto
    then have "\<forall>u \<in> set (map fst (non_system_cfs db)). flush_ok u" by (auto simp: Q_def split: if_splits)
    with u have "flush_ok u" by auto
    with u have "flush_end u \<in> set p1" unfolding setp1 by auto
    then show "flush_end u \<in> set t" by (simp add: teq)
  qed
  have setp2: "set p2 = (\<Union>u \<in> fst ` set (system_cfs db). {flush_begin u, if flush_ok u then flush_end u else flush_failed u})"
    using set_parallel_for_each[OF p2[unfolded flush_system_column_families_def]] by simp
  have c7: "(\<forall>u \<in> fst ` set (non_system_cfs db). flush_ok u) \<longrightarrow>
              (\<forall>u \<in> fst ` set (system_cfs db). flush_begin u \<in> set t \<and>
                 (flush_end u \<in> set t \<or> flush_failed u \<in> set t))"
  proof (intro impI ballI)
    fix u assume ok: "\<forall>u \<in> fst ` set (non_system_cfs db). flush_ok u"
      and u: "u \<in> fst ` set (system_cfs db)"
    from u have "flush_begin u \<in> set p2" "flush_end u \<in> set p2 \<or> flush_failed u \<in> set p2"
      unfolding setp2 by auto
    moreover from ok have "set p2 \<subseteq> set t" by (auto simp: teq)
    ultimately show "flush_begin u \<in> set t \<and> (flush_end u \<in> set t \<or> flush_failed u \<in> set t)"
      by blast
  qed
  have c8: "(\<forall>u \<in> fst ` set (get_column_families db). flush_ok u) \<longrightarrow>
              (\<forall>u \<in> fst ` set (system_cfs db). flush_end u \<in> set t) \<and>
              commitlog_shutdown \<in> set t \<and> last t = commitlog_shutdown"
  proof (intro impI)
    assume ok: "\<forall>u \<in> fst ` set (get_column_families db). flush_ok u"
    then have ok1: "\<forall>u \<in> set (map fst (non_system_cfs db)). flush_ok u"
      and ok2: "\<forall>u \<in> set (map fst (system_cfs db)). flush_ok u"
      by (auto simp: non_system_cfs_def system_cfs_def)
    then have teq': "t = [compaction_manager_drain, stop_barrier_arrive_and_wait] @ p1 @
        [stop_barrier_arrive_and_wait] @ p2 @ [stop_barrier_arrive_and_wait, commitlog_shutdown]"
      using teq by simp
    have "\<forall>u \<in> fst ` set (system_cfs db). flush_end u \<in> set p2"
      unfolding setp2 using ok2 by auto
    then show "(\<forall>u \<in> fst ` set (system_cfs db). flush_end u \<in> set t) \<and>
              commitlog_shutdown \<in> set t \<and> last t = commitlog_shutdown"
      by (auto simp: teq')
  qed
  from c1 c2 c3 c4 c5 c6 c7 c8 show ?thesis by blast
qed

section \<open>Properties of the strategies\<close>

lemma smallest_bucket_mem: "smallest_bucket b cs \<in> set (b # cs)"
  by (induction cs arbitrary: b) (auto split: if_splits)

lemma most_interesting_bucket_cases:
  "most_interesting_bucket buckets mn mx = [] \<and>
     filter (\<lambda>b. is_bucket_interesting b mn) (map (take mx) buckets) = [] \<or>
   (\<exists>g \<in> set buckets. most_interesting_bucket buckets mn mx = take mx g \<and> mn \<le> length (take mx g))"
proof (cases "filter (\<lambda>b. is_bucket_interesting b mn) (map (take mx) buckets)")
  case Nil
  then show ?thesis by (simp add: most_interesting_bucket_def)
next
  case (Cons b bs)
  then have "most_interesting_bucket buckets mn mx \<in> set (filter (\<lambda>b. is_bucket_interesting b mn) (map (take mx) buckets))"
    using smallest_bucket_mem[of b bs] by (simp add: most_interesting_bucket_def)
  then show ?thesis by (auto simp: is_bucket_interesting_def)
qed




lemma sort_key_two:
  "sort_key f [a, b] = [a, b] \<or> sort_key f [a, b] = [b, a]"
  by (auto simp: insort_key.simps)










section \<open>Properties of compaction\<close>













section \<open>Evaluation of the examples\<close>

lemmas eval_defs = range_entries_def recorded_repair_time_def get_gc_before_for_range_def
  get_gc_before_for_key_def get_repair_history_map_for_table_def map_equal_range_def
  interval_map_find_def overlaps_def exclusive_less_def is_empty_interval_def
  range_to_interval_def interval_closed_def interval_open_def interval_left_open_def
  interval_right_open_def interval_to_range_def range_contains_def range_contains_point_def
  start_cut_def end_cut_def less_token_def less_eq_token_def tri_compare_def
  saturating_subtract_def time_point_min_def time_point_max_def identity_element_def
  repair_schema_def repaired_0_10_def closed_range_def update_repair_time_def
  get_or_create_repair_history_map_for_table_def add_def merge_value_def maps_wf_def
  minimum_token_def maximum_token_def

lemmas strategy_defs = size_tiered_get_sstables_for_compaction_def get_buckets_def
  most_interesting_bucket_def is_bucket_interesting_def avg_size_less_def total_size_def
  within_half_def sized_sstable_def newest_bucket_def window_job_def switched_windows_def
  without_window_def
  get_compaction_candidates_def eligible_levels_def get_level_def sstable_overlaps_def
  overlapping_def leveled_sstable_def max_bytes_for_level_def

text \<open>
  The four selections of the test \<open>time_window_strategy_size_tiered_behavior_correctness\<close>:
  one sstable in the current window; two sstables in the older window, never collapsed, and
  three in the current one; the older window collapsed to one sstable; and the older window
  with four sstables of the same size.  They return 0, 2, 0 and 4 sstables.
\<close>

lemma time_window_test_results:
  "newest_bucket within_half {} [(0, one_past)] 4 32 0 = ([], {}) \<and>
   newest_bucket within_half {} [(0, two_past), (7200, three_current)] 4 32 7200 = (two_past, {}) \<and>
   newest_bucket within_half {} [(0, one_collapsed), (7200, three_current)] 4 32 7200 = ([], {0}) \<and>
   newest_bucket within_half {0} [(0, four_similar), (7200, three_current)] 4 32 7200 = (four_similar, {0})"
proof -
  have c: "most_interesting_bucket (get_buckets within_half three_current) 4 32 = []"
    by (simp add: strategy_defs three_current_def)
  have m: "most_interesting_bucket (get_buckets within_half four_similar) 4 32 = four_similar"
    by (simp add: strategy_defs four_similar_def)
  have o: "most_interesting_bucket (get_buckets within_half one_collapsed) 4 32 = []"
    by (simp add: strategy_defs one_collapsed_def)
  have o1: "most_interesting_bucket (get_buckets within_half one_past) 4 32 = []"
    by (simp add: strategy_defs one_past_def)
  have t: "trim_to_threshold two_past 32 = two_past"
    by (simp add: trim_to_threshold_def sized_sstable_def two_past_def)
  have l: "length one_collapsed = 1" "length three_current = 3" "length four_similar = 4"
    "length one_past = 1" "length two_past = 2"
    by (simp_all add: one_collapsed_def three_current_def four_similar_def one_past_def two_past_def)
  have n: "two_past \<noteq> []" "four_similar \<noteq> []" using l by auto
  have s1: "switched_windows 0 {} [(0, one_past)] = {}"
    and s2: "switched_windows 7200 {} [(0, two_past), (7200, three_current)] = {}"
    and s3: "switched_windows 7200 {} [(0, one_collapsed), (7200, three_current)] = {0}"
    and s4: "switched_windows 7200 {0} [(0, four_similar), (7200, three_current)] = {0}"
    by (simp_all add: switched_windows_def l)
  have "newest_bucket within_half {} [(0, one_past)] 4 32 0 = ([], {})"
    by (simp add: newest_bucket_def Let_def s1 window_job_def o1)
  moreover have "newest_bucket within_half {} [(0, two_past), (7200, three_current)] 4 32 7200 = (two_past, {})"
    by (simp add: newest_bucket_def Let_def s2 window_job_def c t l n)
  moreover have "newest_bucket within_half {} [(0, one_collapsed), (7200, three_current)] 4 32 7200 = ([], {0})"
    by (simp add: newest_bucket_def Let_def s3 window_job_def c o)
  moreover have "newest_bucket within_half {0} [(0, four_similar), (7200, three_current)] 4 32 7200 = (four_similar, {0})"
    by (simp add: newest_bucket_def Let_def s4 window_job_def c m n)
  ultimately show ?thesis by (simp only: simp_thms)
qed

section \<open>Claims about the tombstone garbage-collection oracle\<close>

text \<open>
  Claim C2.  For a schema in repair mode (with a non-negative propagation delay), a token
  range that meets no entry of the table's repair-history map, or a key whose token has
  no entry in it, gets the minimum time point from \<open>get_gc_before_for_range\<close> (as both
  \<open>min_gc_before\<close> and \<open>max_gc_before\<close>) and from \<open>get_gc_before_for_key\<close>; a table
  without a map has no entries at all.  Absence of repair information never permits purging.
\<close>

theorem gc_before_without_repair_entry:
  assumes "mode (tombstone_gc_options s) = repair"
      and "0 \<le> propagation_delay_in_seconds (tombstone_gc_options s)"
  shows "(range_entries maps s rng = [] \<longrightarrow>
            min_gc_before (get_gc_before_for_range maps s rng query_time) = time_point_min \<and>
            max_gc_before (get_gc_before_for_range maps s rng query_time) = time_point_min) \<and>
         (recorded_repair_time maps s (dk_token dk) = None \<longrightarrow>
            get_gc_before_for_key maps s dk query_time = time_point_min) \<and>
         (get_repair_history_map_for_table maps (schema_id s) = None \<longrightarrow>
            range_entries maps s rng = [] \<and> recorded_repair_time maps s (dk_token dk) = None)"
  using assms
  by (auto simp: range_entries_def recorded_repair_time_def get_gc_before_for_range_def
      get_gc_before_for_key_def saturating_subtract_min split: option.splits)

text \<open>
  Claim C2, witness: the table repaired on the tokens 0 to 10 only, queried on the range
  15 to 18 and on the key with token 15.
\<close>

theorem gc_before_without_repair_entry_witness:
  "mode (tombstone_gc_options repair_schema) = repair \<and>
   0 \<le> propagation_delay_in_seconds (tombstone_gc_options repair_schema) \<and>
   range_entries repaired_0_10 repair_schema (closed_range 15 18) = [] \<and>
   recorded_repair_time repaired_0_10 repair_schema (dk_token (Decorated_key (key 15) ''k'')) = None \<and>
   min_gc_before (get_gc_before_for_range repaired_0_10 repair_schema (closed_range 15 18) 200000) = time_point_min \<and>
   max_gc_before (get_gc_before_for_range repaired_0_10 repair_schema (closed_range 15 18) 200000) = time_point_min \<and>
   get_gc_before_for_key repaired_0_10 repair_schema (Decorated_key (key 15) ''k'') 200000 = time_point_min"
proof -
  have h1: "mode (tombstone_gc_options repair_schema) = repair"
    and h2: "0 \<le> propagation_delay_in_seconds (tombstone_gc_options repair_schema)"
    by (simp_all add: repair_schema_def)
  have h3: "range_entries repaired_0_10 repair_schema (closed_range 15 18) = []"
    by (simp add: eval_defs)
  have h4: "recorded_repair_time repaired_0_10 repair_schema (dk_token (Decorated_key (key 15) ''k'')) = None"
    by (simp add: eval_defs)
  from gc_before_without_repair_entry[OF h1 h2, where maps = repaired_0_10
      and rng = "closed_range 15 18" and query_time = 200000 and dk = "Decorated_key (key 15) ''k''"]
    h1 h2 h3 h4 show ?thesis by blast
qed

text \<open>
  Claim C4 as stated fails: the recorded repair time of a token of the range after
  \<open>update_repair_time\<close> is not always the maximum of the previous value and the new
  timestamp.  A timestamp equal to the epoch is the identity element of \<open>inplace_max\<close>,
  which a \<open>partial_absorber\<close> map drops on addition: on an empty history the token 5 of
  the updated range 0 to 10 still has no recorded time, and on a history holding a time
  before the epoch the recorded time stays before the epoch.
\<close>

theorem update_repair_time_epoch_counterexample:
  "range_contains_point (closed_range 0 10) (key 5) \<and>
   recorded_repair_time (update_repair_time Map.empty repair_schema (closed_range 0 10) 0) repair_schema (key 5)
     \<noteq> Some (merge_value (recorded_repair_time Map.empty repair_schema (key 5)) 0) \<and>
   recorded_repair_time (update_repair_time [1 \<mapsto> [(interval_closed (key 0) (key 10), - 5)]] repair_schema (closed_range 0 10) 0) repair_schema (key 5)
     \<noteq> Some (merge_value (recorded_repair_time [1 \<mapsto> [(interval_closed (key 0) (key 10), - 5)]] repair_schema (key 5)) 0)"
  by (simp add: eval_defs)

text \<open>
  Claim C4, amended.  On a well-formed repair history \<open>update_repair_time\<close> is idempotent;
  for every token inside the interval of the range, when the timestamp is not the epoch,
  the recorded repair time after the call is the maximum of the previous value and the
  timestamp (the timestamp itself when nothing was recorded); every other recorded time,
  and every recorded time when the timestamp is the epoch, is unchanged; so no recorded
  time and no \<open>gc_before\<close> of a key decreases, and the history stays well-formed.
\<close>

theorem update_repair_time_max_merge:
  assumes "maps_wf maps s"
  shows "update_repair_time (update_repair_time maps s rng t) s rng t = update_repair_time maps s rng t \<and>
     (\<forall>x. recorded_repair_time (update_repair_time maps s rng t) s x =
           (if interval_contains (range_to_interval rng) x \<and> t \<noteq> identity_element
            then Some (merge_value (recorded_repair_time maps s x) t)
            else recorded_repair_time maps s x)) \<and>
     (\<forall>x. range_contains_point rng x \<and> token_kind x = 1 \<and> t \<noteq> identity_element \<longrightarrow>
          recorded_repair_time (update_repair_time maps s rng t) s x =
            Some (merge_value (recorded_repair_time maps s x) t)) \<and>
     (\<forall>x w. recorded_repair_time maps s x = Some w \<longrightarrow>
          (\<exists>w'. recorded_repair_time (update_repair_time maps s rng t) s x = Some w' \<and> w \<le> w')) \<and>
     (\<forall>dk query_time. get_gc_before_for_key maps s dk query_time
          \<le> get_gc_before_for_key (update_repair_time maps s rng t) s dk query_time) \<and>
     maps_wf (update_repair_time maps s rng t) s"
proof -
  note ru = recorded_update[OF assms, of rng t]
  have "maps_wf (update_repair_time maps s rng t) s"
    using assms by (auto simp: maps_wf_def update_repair_time_def
        get_or_create_repair_history_map_for_table_def intro: wf_add split: option.splits)
  moreover have "\<forall>x w. recorded_repair_time maps s x = Some w \<longrightarrow>
          (\<exists>w'. recorded_repair_time (update_repair_time maps s rng t) s x = Some w' \<and> w \<le> w')"
    by (auto simp: ru merge_value_def)
  moreover have "\<forall>x. range_contains_point rng x \<and> token_kind x = 1 \<and> t \<noteq> identity_element \<longrightarrow>
          recorded_repair_time (update_repair_time maps s rng t) s x =
            Some (merge_value (recorded_repair_time maps s x) t)"
    by (auto simp: ru key_in_range_interval)
  ultimately show ?thesis
    using update_idem[OF assms, of rng t] ru gc_key_update_mono[OF assms, of _ _ rng t] by blast
qed

text \<open>
  Claim C4, witness: the history holding 100000 on the tokens 0 to 10, updated with 200000
  on the range 5 to 20.
\<close>

theorem update_repair_time_max_merge_witness:
  "maps_wf repaired_0_10 repair_schema \<and>
   update_repair_time repaired_0_10 repair_schema (closed_range 5 20) 200000 =
     [1 \<mapsto> [(interval_right_open (key 0) (key 5), 100000), (interval_closed (key 5) (key 20), 200000)]] \<and>
   update_repair_time (update_repair_time repaired_0_10 repair_schema (closed_range 5 20) 200000)
       repair_schema (closed_range 5 20) 200000 =
     update_repair_time repaired_0_10 repair_schema (closed_range 5 20) 200000 \<and>
   recorded_repair_time (update_repair_time repaired_0_10 repair_schema (closed_range 5 20) 200000)
       repair_schema (key 7) = Some 200000 \<and>
   recorded_repair_time (update_repair_time repaired_0_10 repair_schema (closed_range 5 20) 200000)
       repair_schema (key 3) = Some 100000"
proof -
  have h: "maps_wf repaired_0_10 repair_schema" by (simp add: eval_defs)
  have e: "update_repair_time repaired_0_10 repair_schema (closed_range 5 20) 200000 =
     [1 \<mapsto> [(interval_right_open (key 0) (key 5), 100000), (interval_closed (key 5) (key 20), 200000)]]"
    by (simp add: eval_defs)
  have i1: "interval_contains (range_to_interval (closed_range 5 20)) (key 7)"
    and i2: "\<not> interval_contains (range_to_interval (closed_range 5 20)) (key 3)"
    and r1: "recorded_repair_time repaired_0_10 repair_schema (key 7) = Some 100000"
    and r2: "recorded_repair_time repaired_0_10 repair_schema (key 3) = Some 100000"
    by (simp_all add: eval_defs interval_contains_def)
  from update_repair_time_max_merge[OF h, of "closed_range 5 20" 200000] h e i1 i2 r1 r2
  show ?thesis by (simp add: merge_value_def identity_element_def)
qed

section \<open>Claims about validation\<close>

text \<open>
  Claim C8.  When the cluster supports the tombstone-gc options and the keyspace exists,
  \<open>validate_tombstone_gc_options\<close> throws a configuration exception exactly when options
  are given with mode repair and the keyspace uses the local replication strategy or has
  replication factor 1; in every other case it returns normally.  The function reads the
  database and returns no state, so it changes nothing.
\<close>

theorem validate_tombstone_gc_options_throws_iff:
  assumes "cluster_supports_tombstone_gc_options db"
      and "keyspaces db ks_name = Some ks"
  shows "validate_tombstone_gc_options options db ks_name =
          (if (\<exists>opts. options = Some opts \<and> mode opts = repair) \<and>
              (replication_strategy_type ks = local \<or> replication_factor ks = 1)
           then Inl (configuration_exception
             ''tombstone_gc option with mode = repair not supported for table with RF one or local replication strategy'')
           else Inr ())"
  using assms
  by (cases options)
     (simp_all add: validate_tombstone_gc_options_def needs_repair_before_gc_def find_keyspace_def)

text \<open>
  Claim C8, witness: a keyspace with the simple strategy and replication factor 1, with
  repair mode, with timeout mode and without options.
\<close>

theorem validate_tombstone_gc_options_throws_iff_witness:
  "cluster_supports_tombstone_gc_options two_tables \<and>
   keyspaces two_tables ''ks'' = Some \<lparr>replication_strategy_type = simple, replication_factor = 1\<rparr> \<and>
   validate_tombstone_gc_options (Some \<lparr>mode = repair, propagation_delay_in_seconds = 3600\<rparr>) two_tables ''ks'' =
     Inl (configuration_exception
       ''tombstone_gc option with mode = repair not supported for table with RF one or local replication strategy'') \<and>
   validate_tombstone_gc_options (Some \<lparr>mode = timeout, propagation_delay_in_seconds = 3600\<rparr>) two_tables ''ks'' = Inr () \<and>
   validate_tombstone_gc_options None two_tables ''ks'' = Inr ()"
proof -
  have h1: "cluster_supports_tombstone_gc_options two_tables"
    and h2: "keyspaces two_tables ''ks'' = Some \<lparr>replication_strategy_type = simple, replication_factor = 1\<rparr>"
    by (simp_all add: two_tables_def)
  from validate_tombstone_gc_options_throws_iff[OF h1 h2, of "Some \<lparr>mode = repair, propagation_delay_in_seconds = 3600\<rparr>"]
       validate_tombstone_gc_options_throws_iff[OF h1 h2, of "Some \<lparr>mode = timeout, propagation_delay_in_seconds = 3600\<rparr>"]
       validate_tombstone_gc_options_throws_iff[OF h1 h2, of None]
       h1 h2
  show ?thesis by simp
qed

section \<open>Claims about draining\<close>

text \<open>
  Claim C9.  \<open>database::drain\<close> has a trace, and in every trace of it: the drain of the
  compaction manager is the first event and occurs only there; every non-system column
  family has its flush started and finished or failed; every flush event of a non-system
  column family comes before every flush event of a system column family and before the
  shutdown of the commitlog; the system flushes come before the shutdown of the commitlog;
  a system flush or the shutdown of the commitlog occurs only when every non-system flush
  has completed; when every non-system flush completes, every system column family has its
  flush started and finished or failed; and when every flush completes, every system column
  family is flushed to completion and the shutdown of the commitlog is the last event.
\<close>

theorem drain_order:
  assumes "distinct (map fst (get_column_families db))"
  shows "drain flush_ok db \<noteq> {} \<and>
         (\<forall>t \<in> drain flush_ok db.
            t ! 0 = compaction_manager_drain \<and>
            (\<forall>i < length t. 0 < i \<longrightarrow> t ! i \<noteq> compaction_manager_drain) \<and>
            (\<forall>u \<in> fst ` set (non_system_cfs db). flush_begin u \<in> set t \<and>
                 (flush_end u \<in> set t \<or> flush_failed u \<in> set t)) \<and>
            (\<forall>i < length t. \<forall>j < length t. user_flush_event db (t ! i) \<longrightarrow>
                 system_flush_event db (t ! j) \<or> t ! j = commitlog_shutdown \<longrightarrow> i < j) \<and>
            (\<forall>i < length t. \<forall>j < length t. system_flush_event db (t ! i) \<longrightarrow>
                 t ! j = commitlog_shutdown \<longrightarrow> i < j) \<and>
            ((\<exists>e \<in> set t. system_flush_event db e \<or> e = commitlog_shutdown) \<longrightarrow>
                 (\<forall>u \<in> fst ` set (non_system_cfs db). flush_end u \<in> set t)) \<and>
            ((\<forall>u \<in> fst ` set (non_system_cfs db). flush_ok u) \<longrightarrow>
                 (\<forall>u \<in> fst ` set (system_cfs db). flush_begin u \<in> set t \<and>
                    (flush_end u \<in> set t \<or> flush_failed u \<in> set t))) \<and>
            ((\<forall>u \<in> fst ` set (get_column_families db). flush_ok u) \<longrightarrow>
                 (\<forall>u \<in> fst ` set (system_cfs db). flush_end u \<in> set t) \<and>
                 commitlog_shutdown \<in> set t \<and> last t = commitlog_shutdown))"
  apply (rule conjI)
   apply (rule drain_nonempty)
  apply (rule ballI)
  apply (rule drain_trace_order[OF assms])
  apply assumption
  done

text \<open>
  Claim C9, witness: one user table and one system table, both flushes succeeding; the
  flush of the user table ends before the flush of the system table starts, and the
  shutdown of the commitlog is the last event.
\<close>

theorem drain_order_witness:
  "distinct (map fst (get_column_families two_tables)) \<and>
   [compaction_manager_drain, stop_barrier_arrive_and_wait, flush_begin 1, flush_end 1,
    stop_barrier_arrive_and_wait, flush_begin 2, flush_end 2,
    stop_barrier_arrive_and_wait, commitlog_shutdown] \<in> drain (\<lambda>u. True) two_tables \<and>
   user_flush_event two_tables (flush_end 1) \<and> system_flush_event two_tables (flush_begin 2) \<and>
   (3::nat) < 5 \<and>
   flush_end 2 \<in> set [compaction_manager_drain, stop_barrier_arrive_and_wait, flush_begin 1, flush_end 1,
    stop_barrier_arrive_and_wait, flush_begin 2, flush_end 2,
    stop_barrier_arrive_and_wait, commitlog_shutdown] \<and>
   last [compaction_manager_drain, stop_barrier_arrive_and_wait, flush_begin 1, flush_end 1,
    stop_barrier_arrive_and_wait, flush_begin 2, flush_end 2,
    stop_barrier_arrive_and_wait, commitlog_shutdown] = commitlog_shutdown"
proof -
  let ?t = "[compaction_manager_drain, stop_barrier_arrive_and_wait, flush_begin 1, flush_end 1,
    stop_barrier_arrive_and_wait, flush_begin 2, flush_end 2,
    stop_barrier_arrive_and_wait, commitlog_shutdown]"
  have h1: "distinct (map fst (get_column_families two_tables))"
    by (simp add: get_column_families_def two_tables_def)
  have h2: "?t \<in> drain (\<lambda>u. True) two_tables"
    by (simp add: drain_def flush_non_system_column_families_def flush_system_column_families_def
      non_system_cfs_def system_cfs_def get_column_families_def is_system_keyspace_def
      system_keyspaces_def flush_def two_tables_def)
  have u: "user_flush_event two_tables (flush_end 1)" and s: "system_flush_event two_tables (flush_begin 2)"
    by (simp_all add: user_flush_event_def system_flush_event_def non_system_cfs_def system_cfs_def
        get_column_families_def is_system_keyspace_def system_keyspaces_def two_tables_def)
  have sys: "2 \<in> fst ` set (system_cfs two_tables)"
    by (simp add: system_cfs_def get_column_families_def is_system_keyspace_def
        system_keyspaces_def two_tables_def)
  have n3: "?t ! 3 = flush_end 1" and n5: "?t ! 5 = flush_begin 2"
    and l3: "3 < length ?t" and l5: "5 < length ?t" by simp_all
  note D = drain_order[OF h1, of "\<lambda>u. True", THEN conjunct2, THEN bspec, OF h2]
  note c4 = D[THEN conjunct2, THEN conjunct2, THEN conjunct2, THEN conjunct1]
  note c8 = D[THEN conjunct2, THEN conjunct2, THEN conjunct2, THEN conjunct2, THEN conjunct2,
      THEN conjunct2, THEN conjunct2]
  have "user_flush_event two_tables (?t ! 3)" using u by (simp only: n3)
  moreover have "system_flush_event two_tables (?t ! 5) \<or> ?t ! 5 = commitlog_shutdown"
    using s by (simp only: n5 simp_thms)
  ultimately have o: "(3::nat) < 5" using c4[rule_format, OF l3 l5] by blast
  have "\<forall>u \<in> fst ` set (get_column_families two_tables). True" by blast
  with c8 have e: "(\<forall>u \<in> fst ` set (system_cfs two_tables). flush_end u \<in> set ?t) \<and>
      commitlog_shutdown \<in> set ?t \<and> last ?t = commitlog_shutdown"
    by (rule mp)
  from e sys have f: "flush_end 2 \<in> set ?t" by blast
  from e have g: "last ?t = commitlog_shutdown" by blast
  show ?thesis by (intro conjI h1 h2 u s o f g)
qed

section \<open>Claims about the bounds of a range query\<close>

text \<open>
  Claim C10.  The comment of \<open>get_gc_before_for_range\<close> says that the \<open>min_gc_before\<close> and
  \<open>max_gc_before\<close> returned are the minimum and maximum \<open>gc_before\<close> of all the keys in the
  range.  The code takes them over the entries of the repair history that the range meets
  only.  With the tokens 0 to 10 repaired at 100000 and a propagation delay of 3600, the
  range 5 to 20 contains the token 15; the key with that token has the minimum time point
  as \<open>gc_before\<close>, and the range query returns 96400 as \<open>min_gc_before\<close>, above it.
\<close>

theorem gc_before_range_min_above_key:
  "range_contains_point (closed_range 5 20) (dk_token (Decorated_key (key 15) ''k'')) \<and>
   get_gc_before_for_range repaired_0_10 repair_schema (closed_range 5 20) 200000 =
     \<lparr>min_gc_before = 96400, max_gc_before = 96400, knows_entire_range = False\<rparr> \<and>
   get_gc_before_for_key repaired_0_10 repair_schema (Decorated_key (key 15) ''k'') 200000 =
     time_point_min \<and>
   get_gc_before_for_key repaired_0_10 repair_schema (Decorated_key (key 15) ''k'') 200000 <
     min_gc_before (get_gc_before_for_range repaired_0_10 repair_schema (closed_range 5 20) 200000)"
  by (simp add: eval_defs)

section \<open>Claims about the compaction strategies\<close>

text \<open>
  Claim C7.  For every candidate pool the size-tiered selection returns at most
  \<open>max_threshold\<close> sstables, also when a bucket holds more similar-sized sstables; the
  selection is a function of its arguments, so the truncation is deterministic.
\<close>

theorem size_tiered_candidates_capped:
  "length (most_interesting_bucket buckets min_threshold max_threshold) \<le> max_threshold \<and>
   length (size_tiered_get_sstables_for_compaction similar min_threshold max_threshold candidates)
     \<le> max_threshold"
  using most_interesting_bucket_cases[of buckets min_threshold max_threshold]
    most_interesting_bucket_cases[of "get_buckets similar candidates" min_threshold max_threshold]
  unfolding size_tiered_get_sstables_for_compaction_def by auto

text \<open>
  Claim C7, witness: the repository's test, 33 sstables of the same size with
  \<open>min_threshold = 4\<close> and \<open>max_threshold = 32\<close>, gives a job of exactly 32.
\<close>

theorem size_tiered_candidates_capped_witness:
  "length (size_tiered_get_sstables_for_compaction within_half 4 32
     (map (\<lambda>g. sized_sstable g 1) [0..<33])) \<le> 32 \<and>
   length (size_tiered_get_sstables_for_compaction within_half 4 32
     (map (\<lambda>g. sized_sstable g 1) [0..<33])) = 32"
proof -
  have "length (size_tiered_get_sstables_for_compaction within_half 4 32
     (map (\<lambda>g. sized_sstable g 1) [0..<33])) = 32"
    by (simp add: strategy_defs upt_rec)
  with size_tiered_candidates_capped[of "[]" 4 32 within_half "map (\<lambda>g. sized_sstable g 1) [0..<33]"]
  show ?thesis by blast
qed



text \<open>
  Claim C5 as stated fails: two overlapping level-0 sstables of one byte each, with no
  other sstable and a maximum sstable size of 1000, are not worth promoting, and the
  descriptor's level is not 1.
\<close>

theorem leveled_small_level0_counterexample:
  "sstable_level (leveled_sstable 1 0 0 49 1) = 0 \<and> sstable_level (leveled_sstable 2 0 1 49 1) = 0 \<and>
   sstable_overlaps (leveled_sstable 1 0 0 49 1) (leveled_sstable 2 0 1 49 1) \<and>
   level (get_compaction_candidates within_half 4 32 1000 (\<lambda>L. None)
            [leveled_sstable 1 0 0 49 1, leveled_sstable 2 0 1 49 1]) \<noteq> 1"
  by (simp add: strategy_defs less_eq_token_def tri_compare_def)

text \<open>
  Claim C5, amended.  When the table holds exactly two level-0 sstables (of different
  generations) with overlapping key ranges, no sstable at a deeper level, and their total
  size reaches the maximum sstable size, the descriptor holds exactly those two sstables
  and its level is 1.
\<close>

theorem leveled_two_level0_promoted:
  assumes "sstable_level a = 0" and "sstable_level b = 0" and "generation a \<noteq> generation b"
      and "sstable_overlaps a b"
      and "max_sstable_size \<le> data_size a + data_size b"
  shows "set (sstables (get_compaction_candidates similar min_threshold max_threshold max_sstable_size
             last_compacted_keys [a, b])) = {a, b} \<and>
         length (sstables (get_compaction_candidates similar min_threshold max_threshold max_sstable_size
             last_compacted_keys [a, b])) = 2 \<and>
         level (get_compaction_candidates similar min_threshold max_threshold max_sstable_size
             last_compacted_keys [a, b]) = 1"
proof -
  have el: "eligible_levels [a, b] max_sstable_size = []"
    using assms by (auto simp: eligible_levels_def)
  have l0: "get_level [a, b] 0 = [a, b]" and l1: "get_level [a, b] 1 = []"
    using assms by (auto simp: get_level_def)
  have ov: "sstable_overlaps b a" using assms(4) by (auto simp: sstable_overlaps_def)
  from sort_key_two[of generation a b] show ?thesis
  proof
    assume "sort_key generation [a, b] = [a, b]"
    then show ?thesis using assms el l0 l1 ov
      by (simp add: get_compaction_candidates_def Let_def total_size_def overlapping_def)
  next
    assume "sort_key generation [a, b] = [b, a]"
    then show ?thesis using assms el l0 l1 ov
      by (auto simp add: get_compaction_candidates_def Let_def total_size_def overlapping_def)
  qed
qed

text \<open>
  Claim C5, witness: the two sstables of the repository's test, each of the maximum
  sstable size.
\<close>

theorem leveled_two_level0_promoted_witness:
  "sstable_level (leveled_sstable 1 0 0 49 1000) = 0 \<and> sstable_level (leveled_sstable 2 0 1 49 1000) = 0 \<and>
   generation (leveled_sstable 1 0 0 49 1000) \<noteq> generation (leveled_sstable 2 0 1 49 1000) \<and>
   sstable_overlaps (leveled_sstable 1 0 0 49 1000) (leveled_sstable 2 0 1 49 1000) \<and>
   (1000::nat) \<le> data_size (leveled_sstable 1 0 0 49 1000) + data_size (leveled_sstable 2 0 1 49 1000) \<and>
   set (sstables (get_compaction_candidates within_half 4 32 1000 (\<lambda>L. None)
            [leveled_sstable 1 0 0 49 1000, leveled_sstable 2 0 1 49 1000]))
     = {leveled_sstable 1 0 0 49 1000, leveled_sstable 2 0 1 49 1000} \<and>
   level (get_compaction_candidates within_half 4 32 1000 (\<lambda>L. None)
            [leveled_sstable 1 0 0 49 1000, leveled_sstable 2 0 1 49 1000]) = 1"
proof -
  have h1: "sstable_level (leveled_sstable 1 0 0 49 1000) = 0"
    and h2: "sstable_level (leveled_sstable 2 0 1 49 1000) = 0"
    and h3: "generation (leveled_sstable 1 0 0 49 1000) \<noteq> generation (leveled_sstable 2 0 1 49 1000)"
    and h4: "sstable_overlaps (leveled_sstable 1 0 0 49 1000) (leveled_sstable 2 0 1 49 1000)"
    and h5: "(1000::nat) \<le> data_size (leveled_sstable 1 0 0 49 1000) + data_size (leveled_sstable 2 0 1 49 1000)"
    by (simp_all add: leveled_sstable_def sstable_overlaps_def less_eq_token_def tri_compare_def)
  from leveled_two_level0_promoted[OF h1 h2 h3 h4 h5, of within_half 4 32 "\<lambda>L. None"] h1 h2 h3 h4 h5
  show ?thesis by simp
qed

section \<open>Claims about compaction\<close>



end
